theory Spec2Isabelle
  imports Complex_Main "HOL-Library.AList"
begin

section \<open>Values exchanged with JavaScript\<close>

text \<open>
  A JavaScript string is a sequence of UTF-16 code units; \<open>length\<close> and
  \<open>substring\<close> count those units. The model writes such a string as a list of
  characters, one per code unit. Nothing below depends on what a unit holds.

  A parsed JSON value. An object is the list of its own properties in the order
  \<open>Object.entries\<close> enumerates them, one entry per key.
\<close>

datatype json =
    JNull
  | JBool bool
  | JNumber real
  | JString string
  | JArray "json list"
  | JObject "(string \<times> json) list"

text \<open>
  What a \<open>throw\<close> (or a rejected promise) carries. The three error classes have a
  string \<open>message\<close>. Any other thrown value is \<open>Thrown r\<close>, where \<open>r\<close> is what
  the use of its \<open>message\<close> property in a catch block meets: an exception for
  \<open>null\<close> and \<open>undefined\<close> (a \<open>TypeError\<close>), for a getter that throws and for a
  value \<open>JSON.stringify\<close> refuses; otherwise the value read, or \<open>undefined\<close>
  (\<open>None\<close>) as for \<open>throw 42\<close>.
\<close>

datatype js_error =
    Error string
  | SyntaxError string
  | TypeError string
  | Thrown "js_error + json option"

text \<open>\<open>(e as Error).message\<close>, which may itself throw.\<close>

fun message :: "js_error \<Rightarrow> js_error + json option" where
  "message (Error m) = Inr (Some (JString m))"
| "message (SyntaxError m) = Inr (Some (JString m))"
| "message (TypeError m) = Inr (Some (JString m))"
| "message (Thrown r) = r"

text \<open>\<open>throw null\<close> and \<open>throw undefined\<close>.\<close>

definition thrownNullish :: js_error where
  "thrownNullish = Thrown (Inl (TypeError ''Cannot read properties of null''))"

text \<open>
  A JavaScript array with holes: \<open>None\<close> is a hole, which a spread
  (\<open>...argsArray\<close>) passes as \<open>undefined\<close>. Assigning past the end grows the
  array and leaves holes in between.
\<close>

definition assignIndex :: "'a option list \<Rightarrow> nat \<Rightarrow> 'a \<Rightarrow> 'a option list" where
  "assignIndex xs i v =
     (if i < length xs then xs[i := Some v]
      else xs @ replicate (i - length xs) None @ [Some v])"

text \<open>\<open>Array.prototype.indexOf\<close>: the first position of the element, or \<open>-1\<close>.\<close>

fun indexOf :: "'a list \<Rightarrow> 'a \<Rightarrow> int" where
  "indexOf [] x = -1"
| "indexOf (y # ys) x =
     (if y = x then 0 else (let i = indexOf ys x in if i = -1 then -1 else i + 1))"

text \<open>\<open>xs.splice(index, 1)\<close> for an index within the array.\<close>

definition splice1 :: "'a list \<Rightarrow> nat \<Rightarrow> 'a list" where
  "splice1 xs index = take index xs @ drop (Suc index) xs"

text \<open>\<open>xs.join(sep)\<close> on an array of strings.\<close>

fun join :: "string \<Rightarrow> string list \<Rightarrow> string" where
  "join sep [] = []"
| "join sep [x] = x"
| "join sep (x # y # ys) = x @ sep @ join sep (y # ys)"

section \<open>Decorators and the metadata they store\<close>

text \<open>
  \<open>ChatFunction(data)\<close> stores \<open>data\<close> under the key \<open>chat_function\<close> of a method;
  \<open>ChatParameter(data)\<close> stores \<open>{...data, name: propertyKey}\<close> under the key
  \<open>chat_function_<parameterIndex>\<close> of the method. A parameter decorator is called
  with the target, the name of the method that has the parameter (\<open>propertyKey\<close>)
  and the parameter's position (\<open>parameterIndex\<close>). Field prefixes tell the records
  apart: \<open>cf_\<close> is the argument of \<open>ChatFunction\<close>, \<open>cp_\<close> the argument of
  \<open>ChatParameter\<close>, \<open>pm_\<close> the stored parameter metadata.
\<close>

datatype ParamType = TString | TObject

record ChatFunctionArg =
  cf_name :: string
  cf_description :: string

record ChatParameterArg =
  cp_description :: string
  cp_type :: ParamType
  cp_required :: "bool option"

record ParameterMetadata =
  pm_description :: string
  pm_type :: ParamType
  pm_required :: "bool option"
  pm_name :: string

text \<open>
  A plugin object as \<open>registerFunctions\<close> sees it: the own property names of its
  prototype, the \<open>chat_function\<close> metadata by property, the
  \<open>chat_function_<i>\<close> metadata by property and index \<open>i\<close> (a finite store, so a
  list with holes), and the bound methods. A method takes the spread arguments and
  returns its string or throws.
\<close>

record Plugin =
  ownPropertyNames :: "string list"
  chat_function :: "string \<rightharpoonup> ChatFunctionArg"
  chat_function_i :: "string \<Rightarrow> ParameterMetadata option list"
  bound :: "string \<Rightarrow> json option list \<Rightarrow> js_error + string"

definition ChatFunction :: "ChatFunctionArg \<Rightarrow> string \<Rightarrow> Plugin \<Rightarrow> Plugin" where
  "ChatFunction data propertyKey target =
     target\<lparr>chat_function := (chat_function target)(propertyKey \<mapsto> data)\<rparr>"

definition ChatParameter :: "ChatParameterArg \<Rightarrow> string \<Rightarrow> nat \<Rightarrow> Plugin \<Rightarrow> Plugin" where
  "ChatParameter data propertyKey parameterIndex target =
     target\<lparr>chat_function_i := (chat_function_i target)
       (propertyKey := assignIndex (chat_function_i target propertyKey) parameterIndex
          \<lparr>pm_description = cp_description data, pm_type = cp_type data,
           pm_required = cp_required data, pm_name = propertyKey\<rparr>)\<rparr>"

text \<open>\<open>Reflect.getMetadata(`chat_function_${i}`, plugin, name)\<close>; \<open>None\<close> where
  \<open>Reflect.hasMetadata\<close> is false.\<close>

definition getMetadata_i :: "Plugin \<Rightarrow> string \<Rightarrow> nat \<Rightarrow> ParameterMetadata option" where
  "getMetadata_i plugin name i =
     (if i < length (chat_function_i plugin name) then chat_function_i plugin name ! i
      else None)"

section \<open>The controller\<close>

record ChatFunctionData =
  description :: string
  parameterData :: "ParameterMetadata list"
  parameterRequired :: "string list"
  parameterIndex :: "string \<rightharpoonup> nat"
  func :: "json option list \<Rightarrow> js_error + string"

record RegisterFunctionsOptions =
  namespace :: "string option"
  enable :: "string list"

record Usage =
  prompt_tokens :: int
  completion_tokens :: int
  total_tokens :: int

datatype Role = System | User | Assistant | Function

record FunctionCall =
  fc_name :: string
  fc_arguments :: string

record Message =
  role :: Role
  content :: "string option"
  msg_name :: "string option"
  function_call :: "FunctionCall option"

text \<open>
  The controller's fields. \<open>registeredFunctionsMap\<close> is a JavaScript \<open>Map\<close>: it
  iterates in insertion order and \<open>set\<close> on a present key replaces the value in
  place, which is \<open>AList.update\<close>. \<open>enabledFunctions\<close> is an array. The token
  budget \<open>requestMaxTokens\<close> is a natural number. The fields \<open>openai\<close> and
  \<open>options\<close> (the service client and the model's name) only shape the request sent
  to the completion service; the service's replies are a parameter of
  \<open>getNextCompletion\<close> below.
\<close>

record GetFunctionMessageOptions =
  requestMaxTokens :: nat

record Controller =
  registeredFunctionsMap :: "(string \<times> ChatFunctionData) list"
  enabledFunctions :: "string list"
  usage :: Usage
  messages :: "Message list"
  defaultFunctionMessageOptions :: GetFunctionMessageOptions

definition zeroUsage :: Usage where
  "zeroUsage = \<lparr>prompt_tokens = 0, completion_tokens = 0, total_tokens = 0\<rparr>"

definition newController :: Controller where
  "newController =
     \<lparr>registeredFunctionsMap = [], enabledFunctions = [], usage = zeroUsage, messages = [],
      defaultFunctionMessageOptions = \<lparr>requestMaxTokens = 2048\<rparr>\<rparr>"

subsection \<open>registerFunctions\<close>

text \<open>\<open>opts.namespace ? `${opts.namespace}.${n}` : n\<close>: an empty namespace is falsy.\<close>

definition namespaced :: "RegisterFunctionsOptions \<Rightarrow> string \<Rightarrow> string" where
  "namespaced opts n =
     (case namespace opts of
        None \<Rightarrow> n
      | Some ns \<Rightarrow> if ns = [] then n else ns @ ''.'' @ n)"

text \<open>
  The \<open>while\<close> loop over \<open>chat_function_<i>\<close>, with its state \<open>i\<close>,
  \<open>parameterData\<close>, \<open>parameterRequired\<close> and \<open>parameterIndex\<close>. It stops at the
  first index without metadata.
\<close>

function scanParameters ::
  "Plugin \<Rightarrow> string \<Rightarrow> nat \<Rightarrow> ParameterMetadata list \<times> string list \<times> (string \<rightharpoonup> nat)
     \<Rightarrow> ParameterMetadata list \<times> string list \<times> (string \<rightharpoonup> nat)" where
  "scanParameters plugin name i (pd, pr, pidx) =
     (case getMetadata_i plugin name i of
        None \<Rightarrow> (pd, pr, pidx)
      | Some metadata \<Rightarrow>
          scanParameters plugin name (Suc i)
            (pd @ [metadata],
             (if pm_required metadata = Some True then pr @ [pm_name metadata] else pr),
             pidx(pm_name metadata \<mapsto> i)))"
  by pat_completeness auto
termination
  by (relation "measure (\<lambda>(plugin, name, i, acc). length (chat_function_i plugin name) - i)")
     (auto simp: getMetadata_i_def split: if_splits)

declare scanParameters.simps [simp del]

text \<open>
  The body of the \<open>forEach\<close>: one decorated method becomes one descriptor
  (\<open>buildDescriptor\<close>), stored under its namespaced name.
\<close>

definition buildDescriptor :: "Plugin \<Rightarrow> string \<Rightarrow> ChatFunctionArg \<Rightarrow> ChatFunctionData" where
  "buildDescriptor plugin name metadata =
     (case scanParameters plugin name 0 ([], [], Map.empty) of
        (pd, pr, pidx) \<Rightarrow>
          \<lparr>description = cf_description metadata, parameterData = pd,
           parameterRequired = pr, parameterIndex = pidx, func = bound plugin name\<rparr>)"

definition registerOne :: "Plugin \<Rightarrow> RegisterFunctionsOptions \<Rightarrow> string \<Rightarrow> Controller \<Rightarrow> Controller" where
  "registerOne plugin opts name c =
     (case chat_function plugin name of
        None \<Rightarrow> c
      | Some metadata \<Rightarrow>
          c\<lparr>registeredFunctionsMap :=
               AList.update (namespaced opts (cf_name metadata))
                 (buildDescriptor plugin name metadata) (registeredFunctionsMap c)\<rparr>)"

definition registerFunctions :: "Controller \<Rightarrow> Plugin \<Rightarrow> RegisterFunctionsOptions \<Rightarrow> Controller" where
  "registerFunctions c plugin opts =
     fold (registerOne plugin opts)
       (filter (\<lambda>name. chat_function plugin name \<noteq> None) (ownPropertyNames plugin))
       (fold (\<lambda>toEnable c'. c'\<lparr>enabledFunctions := enabledFunctions c' @ [namespaced opts toEnable]\<rparr>)
          (enable opts) c)"

subsection \<open>getRegisteredFunctions\<close>

record ChatCompletionFunctions =
  s_name :: string
  s_description :: string
  s_properties :: "string \<rightharpoonup> ParamType \<times> string"
  s_required :: "string list"

definition toSchema :: "string \<times> ChatFunctionData \<Rightarrow> ChatCompletionFunctions" where
  "toSchema e =
     \<lparr>s_name = fst e,
      s_description = description (snd e),
      s_properties =
        fold (\<lambda>cur acc. acc(pm_name cur \<mapsto> (pm_type cur, pm_description cur)))
          (parameterData (snd e)) Map.empty,
      s_required =
        map pm_name (filter (\<lambda>p. pm_required p = Some True) (parameterData (snd e)))\<rparr>"

definition getRegisteredFunctions :: "Controller \<Rightarrow> ChatCompletionFunctions list" where
  "getRegisteredFunctions c =
     filter (\<lambda>f. s_name f \<in> set (enabledFunctions c)) (map toSchema (registeredFunctionsMap c))"

subsection \<open>enableFunction and disableFunction\<close>

definition enableFunction :: "Controller \<Rightarrow> string \<Rightarrow> Controller" where
  "enableFunction c n =
     (if indexOf (enabledFunctions c) n \<noteq> -1
      then c\<lparr>enabledFunctions := enabledFunctions c @ [n]\<rparr>
      else c)"

definition disableFunction :: "Controller \<Rightarrow> string \<Rightarrow> Controller" where
  "disableFunction c n =
     (let index = indexOf (enabledFunctions c) n in
      if index \<noteq> -1
      then c\<lparr>enabledFunctions := splice1 (enabledFunctions c) (nat index)\<rparr>
      else c)"

definition enableFunctions :: "Controller \<Rightarrow> string list \<Rightarrow> Controller" where
  "enableFunctions c names = fold (\<lambda>n c'. enableFunction c' n) names c"

definition disableFunctions :: "Controller \<Rightarrow> string list \<Rightarrow> Controller" where
  "disableFunctions c names = fold (\<lambda>n c'. disableFunction c' n) names c"

section \<open>Dispatch\<close>

text \<open>
  Three library functions are parameters of the model. \<open>JSON_parse\<close> returns the
  parsed value or the message of the \<open>SyntaxError\<close> it throws; an object comes back
  with one entry per key, in property order. \<open>JSON_stringify\<close> is \<open>JSON.stringify\<close>.
  \<open>isWithinTokenLimit\<close> is the function of that name of the package
  \<open>gpt-tokenizer\<close>, whose result is \<open>false | number\<close>: \<open>None\<close> is \<open>false\<close> (the
  limit is exceeded) and \<open>Some n\<close> is the number of tokens \<open>n\<close>.
\<close>

record Library =
  JSON_parse :: "string \<Rightarrow> string + json"
  JSON_stringify :: "json \<Rightarrow> string"
  isWithinTokenLimit :: "string \<Rightarrow> nat \<Rightarrow> nat option"

text \<open>Decimal digits of an array index, as a property name.\<close>

function showNat :: "nat \<Rightarrow> string" where
  "showNat n =
     (if n < 10 then [char_of (48 + n)]
      else showNat (n div 10) @ [char_of (48 + n mod 10)])"
  by pat_completeness auto
termination
  by (relation "measure id") auto

declare showNat.simps [simp del]

text \<open>
  \<open>Object.getOwnPropertyNames\<close> and \<open>Object.entries\<close> on a parsed JSON value. Both
  throw a \<open>TypeError\<close> on \<open>null\<close>; a number or a boolean has no property; a string
  and an array have their indices, and \<open>length\<close> as a name that is not enumerable.
\<close>

fun getOwnPropertyNames :: "json \<Rightarrow> js_error + string list" where
  "getOwnPropertyNames JNull = Inl (TypeError ''Cannot convert undefined or null to object'')"
| "getOwnPropertyNames (JBool b) = Inr []"
| "getOwnPropertyNames (JNumber x) = Inr []"
| "getOwnPropertyNames (JString s) = Inr (map showNat [0..<length s] @ [''length''])"
| "getOwnPropertyNames (JArray xs) = Inr (map showNat [0..<length xs] @ [''length''])"
| "getOwnPropertyNames (JObject kvs) = Inr (map fst kvs)"

fun entries :: "json \<Rightarrow> js_error + (string \<times> json) list" where
  "entries JNull = Inl (TypeError ''Cannot convert undefined or null to object'')"
| "entries (JBool b) = Inr []"
| "entries (JNumber x) = Inr []"
| "entries (JString s) = Inr (map (\<lambda>i. (showNat i, JString [s ! i])) [0..<length s])"
| "entries (JArray xs) = Inr (map (\<lambda>i. (showNat i, xs ! i)) [0..<length xs])"
| "entries (JObject kvs) = Inr kvs"

subsection \<open>handleFunctionCall\<close>

text \<open>The \<open>for\<close> loop over the entries, filling \<open>argsArray\<close>.\<close>

fun placeArguments ::
  "(string \<rightharpoonup> nat) \<Rightarrow> (string \<times> json) list \<Rightarrow> json option list \<Rightarrow> js_error + json option list" where
  "placeArguments pidx [] argsArray = Inr argsArray"
| "placeArguments pidx ((key, v) # rest) argsArray =
     (case pidx key of
        None \<Rightarrow> Inl (Error (''Unknown parameter '' @ key))
      | Some position \<Rightarrow> placeArguments pidx rest (assignIndex argsArray position v))"

text \<open>
  \<open>parameterRequired.every(r => Object.getOwnPropertyNames(parsedArgs).includes(r))\<close>:
  the callback runs once per required name, so nothing is thrown when no name is
  required.
\<close>

definition everyRequired :: "string list \<Rightarrow> json \<Rightarrow> js_error + bool" where
  "everyRequired required parsedArgs =
     (if required = [] then Inr True
      else case getOwnPropertyNames parsedArgs of
             Inl e \<Rightarrow> Inl e
           | Inr names \<Rightarrow> Inr (list_all (\<lambda>r. r \<in> set names) required))"

definition missingRequiredMessage :: "string list \<Rightarrow> string list \<Rightarrow> string" where
  "missingRequiredMessage required names =
     ''Missing required parameters (needed \"'' @ join '', '' required
       @ ''\", got '' @ join '', '' names @ '')''"

definition handleFunctionCall :: "Library \<Rightarrow> Controller \<Rightarrow> string \<Rightarrow> string \<Rightarrow> js_error + string" where
  "handleFunctionCall lib c name args =
     (case map_of (registeredFunctionsMap c) name of
        None \<Rightarrow> Inl (Error (''Function '' @ name @ '' not found''))
      | Some funcData \<Rightarrow>
          (case JSON_parse lib args of
             Inl syntaxError \<Rightarrow> Inl (SyntaxError syntaxError)
           | Inr parsedArgs \<Rightarrow>
               (case everyRequired (parameterRequired funcData) parsedArgs of
                  Inl e \<Rightarrow> Inl e
                | Inr False \<Rightarrow>
                    (case getOwnPropertyNames parsedArgs of
                       Inl e \<Rightarrow> Inl e
                     | Inr names \<Rightarrow>
                         Inl (Error (missingRequiredMessage (parameterRequired funcData) names)))
                | Inr True \<Rightarrow>
                    (case entries parsedArgs of
                       Inl e \<Rightarrow> Inl e
                     | Inr kvs \<Rightarrow>
                         (case placeArguments (parameterIndex funcData) kvs [] of
                            Inl e \<Rightarrow> Inl e
                          | Inr argsArray \<Rightarrow> func funcData argsArray)))))"

subsection \<open>getFunctionMessage\<close>

text \<open>
  \<open>!isWithinTokenLimit(text, limit)\<close> is the loop's condition: \<open>false\<close> and the
  number \<open>0\<close> are falsy, every other number is truthy.
\<close>

definition withinLimit :: "Library \<Rightarrow> string \<Rightarrow> nat \<Rightarrow> bool" where
  "withinLimit lib text limit =
     (case isWithinTokenLimit lib text limit of None \<Rightarrow> False | Some n \<Rightarrow> n \<noteq> 0)"

text \<open>
  The truncation loop. \<open>substring(0, n)\<close> is \<open>take n\<close>, and a negative end counts
  as 0, which is the subtraction of natural numbers. \<open>None\<close> is a loop that never
  exits.
\<close>

partial_function (option) truncateLoop :: "Library \<Rightarrow> nat \<Rightarrow> string \<Rightarrow> string option" where
  "truncateLoop lib maxTokens truncatedResult =
     (if withinLimit lib truncatedResult maxTokens then Some truncatedResult
      else if length truncatedResult > 4 * maxTokens
           then truncateLoop lib maxTokens (take (4 * maxTokens) truncatedResult)
           else truncateLoop lib maxTokens
                  (take (length truncatedResult - 4) truncatedResult))"

declare truncateLoop.simps [code]

text \<open>\<open>{error: m}\<close> for the message \<open>m\<close> read in the catch block: a property whose
  value is \<open>undefined\<close> is left out by \<open>JSON.stringify\<close>.\<close>

definition errorObject :: "json option \<Rightarrow> json" where
  "errorObject m = JObject (case m of None \<Rightarrow> [] | Some v \<Rightarrow> [(''error'', v)])"

definition functionMessage :: "string \<Rightarrow> string \<Rightarrow> Message" where
  "functionMessage name text =
     \<lparr>role = Function, content = Some text, msg_name = Some name, function_call = None\<rparr>"

text \<open>
  \<open>options\<close> is the optional override of \<open>requestMaxTokens\<close>. The result is
  \<open>None\<close> when the call never returns, \<open>Some (Inl t)\<close> when it throws \<open>t\<close> (the
  catch block reads \<open>e.message\<close>, and nothing catches what that read throws) and
  \<open>Some (Inr msg)\<close> when it returns the message \<open>msg\<close>.
\<close>

definition getFunctionMessage ::
  "Library \<Rightarrow> Controller \<Rightarrow> string \<Rightarrow> string \<Rightarrow> nat option \<Rightarrow> (js_error + Message) option" where
  "getFunctionMessage lib c name args options =
     (let maxTokens =
            (case options of
               None \<Rightarrow> requestMaxTokens (defaultFunctionMessageOptions c)
             | Some n \<Rightarrow> n)
      in case handleFunctionCall lib c name args of
           Inr result \<Rightarrow>
             (case truncateLoop lib maxTokens result of
                None \<Rightarrow> None
              | Some truncatedResult \<Rightarrow> Some (Inr (functionMessage name truncatedResult)))
         | Inl e \<Rightarrow>
             (case message e of
                Inl t \<Rightarrow> Some (Inl t)
              | Inr m \<Rightarrow> Some (Inr (functionMessage name (JSON_stringify lib (errorObject m))))))"

text \<open>The source asserts with \<open>!\<close> that the call's name and arguments are present.\<close>

definition getFunctionMessageFromMessage ::
  "Library \<Rightarrow> Controller \<Rightarrow> Message \<Rightarrow> nat option \<Rightarrow> (js_error + Message) option" where
  "getFunctionMessageFromMessage lib c msg options =
     (case function_call msg of
        None \<Rightarrow> Some (Inl (Error ''Message does not have a function call''))
      | Some fc \<Rightarrow>
          getFunctionMessage lib c (fc_name fc) (fc_arguments fc) options)"

section \<open>The conversation\<close>

definition addMessage :: "Controller \<Rightarrow> Message \<Rightarrow> Controller" where
  "addMessage c msg = c\<lparr>messages := messages c @ [msg], usage := zeroUsage\<rparr>"

definition addSystemMessage :: "Controller \<Rightarrow> string \<Rightarrow> Controller" where
  "addSystemMessage c text =
     addMessage c \<lparr>role = System, content = Some text, msg_name = None, function_call = None\<rparr>"

definition clearMessages :: "Controller \<Rightarrow> Controller" where
  "clearMessages c = c\<lparr>messages := [], usage := zeroUsage\<rparr>"

text \<open>
  A reply of the completion service: the messages of its choices (a choice may have
  none) and the optional usage counters. The service is a script: the replies it will
  give, in order, each a response or the error the call throws. A run that asks for
  more replies than the script holds waits forever (\<open>None\<close>).
\<close>

record Response =
  choices :: "Message option list"
  r_usage :: "Usage option"

definition storeUsage :: "Response \<Rightarrow> Controller \<Rightarrow> Controller" where
  "storeUsage response c = (case r_usage response of None \<Rightarrow> c | Some u \<Rightarrow> c\<lparr>usage := u\<rparr>)"

fun getNextCompletion ::
  "Library \<Rightarrow> bool \<Rightarrow> (js_error + Response) list \<Rightarrow> Controller
     \<Rightarrow> ((js_error + Response) \<times> Controller) option" where
  "getNextCompletion lib callFunctions [] c = None"
| "getNextCompletion lib callFunctions (reply # replies) c =
     (case reply of
        Inl e \<Rightarrow> Some (Inl e, c)
      | Inr response \<Rightarrow>
          if callFunctions then
            (case choices response of
               [] \<Rightarrow> Some (Inl (TypeError ''Cannot read properties of undefined''), c)
             | choice # _ \<Rightarrow>
                 (case (case choice of None \<Rightarrow> None | Some m \<Rightarrow> function_call m) of
                    None \<Rightarrow> Some (Inr response, storeUsage response c)
                  | Some fc \<Rightarrow>
                      (case getFunctionMessage lib c (fc_name fc) (fc_arguments fc) None of
                         None \<Rightarrow> None
                       | Some (Inl e) \<Rightarrow> Some (Inl e, c)
                       | Some (Inr msg) \<Rightarrow>
                           (case getNextCompletion lib callFunctions replies
                                   (c\<lparr>messages := messages c @ [msg]\<rparr>) of
                              None \<Rightarrow> None
                            | Some (Inl e, c') \<Rightarrow> Some (Inl e, c')
                            | Some (Inr response', c') \<Rightarrow>
                                Some (Inr response', storeUsage response' c')))))
          else Some (Inr response, storeUsage response c))"

definition getCompletionWithMessage ::
  "Library \<Rightarrow> bool \<Rightarrow> (js_error + Response) list \<Rightarrow> Controller \<Rightarrow> Message
     \<Rightarrow> ((js_error + Response) \<times> Controller) option" where
  "getCompletionWithMessage lib callFunctions replies c msg =
     getNextCompletion lib callFunctions replies (addMessage c msg)"

subsection \<open>The example plugin\<close>

text \<open>
  The repository's \<open>SystemPlugin\<close>, built by its decorators: \<open>dateTime\<close> is
  exposed as \<open>date_time\<close> and has no parameter, \<open>chatFetch\<close> is exposed as
  \<open>fetch\<close> and has one required string parameter. The clock reading and the
  network are parameters: \<open>now\<close> is what \<open>new Date().toString()\<close> gives,
  \<open>fetchText\<close> is the text behind the first argument, or the failure of the fetch.
\<close>

definition SystemPlugin :: "string \<Rightarrow> (json option \<Rightarrow> js_error + string) \<Rightarrow> Plugin" where
  "SystemPlugin now fetchText =
     ChatParameter
       \<lparr>cp_description = ''The URL to fetch'', cp_type = TString, cp_required = Some True\<rparr>
       ''chatFetch'' 0
     (ChatFunction
        \<lparr>cf_name = ''fetch'', cf_description = ''Fetch a URL and return raw text''\<rparr>
        ''chatFetch''
     (ChatFunction
        \<lparr>cf_name = ''date_time'', cf_description = ''Get the current date and time.''\<rparr>
        ''dateTime''
     \<lparr>ownPropertyNames = [''constructor'', ''dateTime'', ''chatFetch''],
      chat_function = Map.empty,
      chat_function_i = (\<lambda>_. []),
      bound = (\<lambda>n args.
        if n = ''dateTime'' then Inr now
        else fetchText (case args of [] \<Rightarrow> None | a # _ \<Rightarrow> a))\<rparr>))"

text \<open>
  A second plugin, written the way the README shows, whose method has two decorated
  parameters:
  \<^verbatim>\<open>
  class ConcatPlugin {
    @ChatFunction({name: 'concat', description: 'Concatenate two strings'})
    concatStrings(
      @ChatParameter({description: 'The first string', type: 'string', required: true})
      first: string,
      @ChatParameter({description: 'The second string', type: 'string', required: true})
      second: string) {
      if (typeof first !== 'string' || typeof second !== 'string')
        throw new TypeError('strings expected');
      return first + second;
    }
  }
  \<close>
\<close>

definition ConcatPlugin :: Plugin where
  "ConcatPlugin =
     ChatParameter
       \<lparr>cp_description = ''The first string'', cp_type = TString, cp_required = Some True\<rparr>
       ''concatStrings'' 0
     (ChatParameter
       \<lparr>cp_description = ''The second string'', cp_type = TString, cp_required = Some True\<rparr>
       ''concatStrings'' 1
     (ChatFunction
        \<lparr>cf_name = ''concat'', cf_description = ''Concatenate two strings''\<rparr>
        ''concatStrings''
     \<lparr>ownPropertyNames = [''constructor'', ''concatStrings''],
      chat_function = Map.empty,
      chat_function_i = (\<lambda>_. []),
      bound = (\<lambda>n args.
        case args of
          Some (JString first) # Some (JString second) # _ \<Rightarrow> Inr (first @ second)
        | _ \<Rightarrow> Inl (TypeError ''strings expected''))\<rparr>))"

text \<open>
  A third plugin, with two required parameters and an optional one:
  \<^verbatim>\<open>
  class JoinPlugin {
    @ChatFunction({name: 'join3', description: 'Join strings'})
    joinThree(
      @ChatParameter({description: 'first', type: 'string', required: true}) a: string,
      @ChatParameter({description: 'second', type: 'string', required: true}) b: string,
      @ChatParameter({description: 'third', type: 'string'}) c?: string) {
      if (arguments.length < 2 || arguments.length > 3 || typeof a !== 'string' ||
          typeof b !== 'string' || (c !== undefined && typeof c !== 'string'))
        throw new TypeError('strings expected');
      return c === undefined ? a + '-' + b : a + '-' + b + '-' + c;
    }
  }
  \<close>
\<close>

definition JoinPlugin :: Plugin where
  "JoinPlugin =
     ChatParameter
       \<lparr>cp_description = ''first'', cp_type = TString, cp_required = Some True\<rparr>
       ''joinThree'' 0
     (ChatParameter
       \<lparr>cp_description = ''second'', cp_type = TString, cp_required = Some True\<rparr>
       ''joinThree'' 1
     (ChatParameter
       \<lparr>cp_description = ''third'', cp_type = TString, cp_required = None\<rparr>
       ''joinThree'' 2
     (ChatFunction
        \<lparr>cf_name = ''join3'', cf_description = ''Join strings''\<rparr>
        ''joinThree''
     \<lparr>ownPropertyNames = [''constructor'', ''joinThree''],
      chat_function = Map.empty,
      chat_function_i = (\<lambda>_. []),
      bound = (\<lambda>n args.
        case args of
          [Some (JString a), Some (JString b)] \<Rightarrow> Inr (a @ ''-'' @ b)
        | [Some (JString a), Some (JString b), None] \<Rightarrow> Inr (a @ ''-'' @ b)
        | [Some (JString a), Some (JString b), Some (JString c)] \<Rightarrow> Inr (a @ ''-'' @ b @ ''-'' @ c)
        | _ \<Rightarrow> Inl (TypeError ''strings expected''))\<rparr>)))"

subsection \<open>A library for the concrete instances\<close>

text \<open>
  Stand-ins for the three library functions, used where a statement is evaluated at a
  concrete input. \<open>stubParse\<close> knows the argument strings used below and rejects every
  other string. \<open>stubStringify\<close> serialises the objects \<open>errorObject\<close> builds for a
  string message or none, with the escapes of \<open>JSON.stringify\<close> for the quote and
  the backslash. \<open>unitTokenizer\<close> follows
  the contract of \<open>isWithinTokenLimit\<close> (\<open>false\<close> when the limit is exceeded, else the
  number of tokens) for an encoder that makes one token of every code unit.
\<close>

definition stubParse :: "string \<Rightarrow> string + json" where
  "stubParse s =
     (case map_of
        [(''{}'', JObject []),
         (''{\"a\":\"x\"}'', JObject [(''a'', JString ''x'')]),
         (''{\"a\":\"x\",\"b\":\"y\"}'', JObject [(''a'', JString ''x''), (''b'', JString ''y'')]),
         (''{\"b\":\"y\",\"a\":\"x\"}'', JObject [(''b'', JString ''y''), (''a'', JString ''x'')]),
         (''{\"a\":\"x\",\"b\":\"y\",\"c\":\"z\"}'',
            JObject [(''a'', JString ''x''), (''b'', JString ''y''), (''c'', JString ''z'')]),
         (''{\"a\":\"x\",\"b\":\"y\",\"d\":\"w\"}'',
            JObject [(''a'', JString ''x''), (''b'', JString ''y''), (''d'', JString ''w'')]),
         (''{\"chatFetch\":\"https://example.com/empty\"}'',
            JObject [(''chatFetch'', JString ''https://example.com/empty'')]),
         (''null'', JNull)] s of
        Some v \<Rightarrow> Inr v
      | None \<Rightarrow> Inl ''Unexpected token'')"

definition jsonQuote :: "string \<Rightarrow> string" where
  "jsonQuote s =
     [CHR 0x22]
     @ concat (map (\<lambda>ch. if ch = CHR 0x22 \<or> ch = CHR 0x5C then [CHR 0x5C, ch] else [ch]) s)
     @ [CHR 0x22]"

definition stubStringify :: "json \<Rightarrow> string" where
  "stubStringify v =
     (case v of
        JObject [] \<Rightarrow> ''{}''
      | JObject [(k, JString m)] \<Rightarrow> ''{'' @ jsonQuote k @ '':'' @ jsonQuote m @ ''}''
      | _ \<Rightarrow> ''null'')"

definition unitTokenizer :: "string \<Rightarrow> nat \<Rightarrow> nat option" where
  "unitTokenizer text limit = (if limit < length text then None else Some (length text))"

definition stubLibrary :: Library where
  "stubLibrary =
     \<lparr>JSON_parse = stubParse, JSON_stringify = stubStringify,
      isWithinTokenLimit = unitTokenizer\<rparr>"

subsection \<open>The data-model invariant of a descriptor\<close>

text \<open>
  The spec's invariant relates \<open>parameterData\<close> and \<open>parameterIndex\<close>. What the
  scan of \<open>registerFunctions\<close> establishes is \<open>lastIndexed\<close>: a name is mapped to
  the last position that carries it, and to nothing else.
\<close>

definition lastIndexed :: "ParameterMetadata list \<Rightarrow> (string \<rightharpoonup> nat) \<Rightarrow> bool" where
  "lastIndexed pd pidx =
     (\<forall>k v. pidx k = Some v \<longleftrightarrow>
        (v < length pd \<and> pm_name (pd ! v) = k \<and>
         (\<forall>j. v < j \<and> j < length pd \<longrightarrow> pm_name (pd ! j) \<noteq> k)))"

text \<open>
  A plugin whose parameter metadata was stored by the decorators only: it starts
  without any, and each decorator adds its entry.
\<close>

inductive decorated :: "Plugin \<Rightarrow> bool" where
  undecorated: "chat_function_i p = (\<lambda>_. []) \<Longrightarrow> decorated p"
| withFunction: "decorated p \<Longrightarrow> decorated (ChatFunction data propertyKey p)"
| withParameter: "decorated p \<Longrightarrow> decorated (ChatParameter data propertyKey position p)"

section \<open>The registry: enabling, disabling, listing\<close>

lemma indexOf_ge: "- 1 \<le> indexOf xs x"
  by (induction xs) (auto simp: Let_def)

lemma indexOf_absent: "indexOf xs x = - 1 \<longleftrightarrow> x \<notin> set xs"
proof (induction xs)
  case Nil
  show ?case by simp
next
  case (Cons y ys)
  have "- 1 \<le> indexOf ys x" by (rule indexOf_ge)
  with Cons show ?case by (auto simp: Let_def)
qed

lemma splice1_indexOf: "x \<in> set xs \<Longrightarrow> splice1 xs (nat (indexOf xs x)) = remove1 x xs"
proof (induction xs)
  case Nil
  then show ?case by simp
next
  case (Cons y ys)
  show ?case
  proof (cases "y = x")
    case True
    then show ?thesis by (simp add: splice1_def)
  next
    case False
    with Cons.prems have mem: "x \<in> set ys" by simp
    with Cons.IH have ih: "splice1 ys (nat (indexOf ys x)) = remove1 x ys" by simp
    from mem have "indexOf ys x \<noteq> - 1" by (simp add: indexOf_absent)
    moreover have "- 1 \<le> indexOf ys x" by (rule indexOf_ge)
    ultimately have nn: "0 \<le> indexOf ys x" by linarith
    then have "nat (indexOf ys x + 1) = Suc (nat (indexOf ys x))" by linarith
    with False ih \<open>indexOf ys x \<noteq> - 1\<close> show ?thesis
      by (simp add: splice1_def Let_def)
  qed
qed

lemma enabledFunctions_disableFunction:
  "enabledFunctions (disableFunction c n) = remove1 n (enabledFunctions c)"
  by (cases "n \<in> set (enabledFunctions c)")
     (simp_all add: disableFunction_def Let_def indexOf_absent splice1_indexOf remove1_idem)

lemma enabledFunctions_enableFunction:
  "enabledFunctions (enableFunction c n) =
     (if n \<in> set (enabledFunctions c) then enabledFunctions c @ [n] else enabledFunctions c)"
  by (simp add: enableFunction_def indexOf_absent)

lemma registeredFunctionsMap_disableFunction:
  "registeredFunctionsMap (disableFunction c n) = registeredFunctionsMap c"
  by (simp add: disableFunction_def Let_def)

lemma registeredFunctionsMap_enableFunction:
  "registeredFunctionsMap (enableFunction c n) = registeredFunctionsMap c"
  by (simp add: enableFunction_def)

lemma enabledFunctions_registerOne:
  "enabledFunctions (registerOne plugin opts n c) = enabledFunctions c"
  by (simp add: registerOne_def split: option.splits)

lemma enabledFunctions_fold_registerOne:
  "enabledFunctions (fold (registerOne plugin opts) ns c) = enabledFunctions c"
  by (induction ns arbitrary: c) (simp_all add: enabledFunctions_registerOne)

lemma enabledFunctions_fold_push:
  "enabledFunctions (fold (\<lambda>toEnable c'. c'\<lparr>enabledFunctions := enabledFunctions c' @ [g toEnable]\<rparr>) es c)
     = enabledFunctions c @ map g es"
  by (induction es arbitrary: c) simp_all

lemma registeredFunctionsMap_fold_push:
  "registeredFunctionsMap (fold (\<lambda>toEnable c'. c'\<lparr>enabledFunctions := enabledFunctions c' @ [g toEnable]\<rparr>) es c)
     = registeredFunctionsMap c"
  by (induction es arbitrary: c) simp_all

lemma enabledFunctions_registerFunctions:
  "enabledFunctions (registerFunctions c plugin opts) =
     enabledFunctions c @ map (namespaced opts) (enable opts)"
  by (simp add: registerFunctions_def enabledFunctions_fold_registerOne enabledFunctions_fold_push)

lemma names_getRegisteredFunctions:
  "map s_name (getRegisteredFunctions c) =
     filter (\<lambda>n. n \<in> set (enabledFunctions c)) (map fst (registeredFunctionsMap c))"
  by (simp add: getRegisteredFunctions_def toSchema_def filter_map comp_def)

lemma key_registerOne_keep:
  "k \<in> fst ` set (registeredFunctionsMap c) \<Longrightarrow>
     k \<in> fst ` set (registeredFunctionsMap (registerOne plugin opts n c))"
  by (simp add: registerOne_def dom_update split: option.splits)

lemma key_registerOne_new:
  "chat_function plugin n = Some md \<Longrightarrow>
     namespaced opts (cf_name md) \<in> fst ` set (registeredFunctionsMap (registerOne plugin opts n c))"
  by (simp add: registerOne_def dom_update)

lemma key_fold_registerOne_keep:
  "k \<in> fst ` set (registeredFunctionsMap c) \<Longrightarrow>
     k \<in> fst ` set (registeredFunctionsMap (fold (registerOne plugin opts) ns c))"
  by (induction ns arbitrary: c) (simp_all add: key_registerOne_keep)

lemma key_fold_registerOne_new:
  "n \<in> set ns \<Longrightarrow> chat_function plugin n = Some md \<Longrightarrow>
     namespaced opts (cf_name md)
       \<in> fst ` set (registeredFunctionsMap (fold (registerOne plugin opts) ns c))"
proof (induction ns arbitrary: c)
  case Nil
  then show ?case by simp
next
  case (Cons a ns)
  show ?case
  proof (cases "n = a")
    case True
    with Cons.prems show ?thesis
      by (simp add: key_fold_registerOne_keep key_registerOne_new)
  next
    case False
    with Cons show ?thesis by simp
  qed
qed

lemma key_registerFunctions_new:
  "n \<in> set (ownPropertyNames plugin) \<Longrightarrow> chat_function plugin n = Some md \<Longrightarrow>
     namespaced opts (cf_name md)
       \<in> fst ` set (registeredFunctionsMap (registerFunctions c plugin opts))"
  unfolding registerFunctions_def
  by (rule key_fold_registerOne_new [where n = n]) simp_all

lemma key_registerFunctions_keep:
  "k \<in> fst ` set (registeredFunctionsMap c) \<Longrightarrow>
     k \<in> fst ` set (registeredFunctionsMap (registerFunctions c plugin opts))"
  by (simp add: registerFunctions_def key_fold_registerOne_keep registeredFunctionsMap_fold_push)

lemmas plugin_eval = SystemPlugin_def ChatFunction_def ChatParameter_def assignIndex_def
  registerFunctions_def registerOne_def buildDescriptor_def scanParameters.simps
  getMetadata_i_def namespaced_def newController_def

lemma count_list_remove1:
  "x \<in> set xs \<Longrightarrow> Suc (count_list (remove1 x xs) x) = count_list xs x"
  by (induction xs) auto

lemma count_list_member: "x \<in> set xs \<Longrightarrow> Suc 0 \<le> count_list xs x"
  by (induction xs) auto

lemma member_remove1_twice: "x \<in> set (remove1 x xs) \<Longrightarrow> 2 \<le> count_list xs x"
  by (induction xs) (auto simp: count_list_member split: if_splits)

lemma disableFunction_hides_single:
  assumes "count_list (enabledFunctions c) n \<le> 1"
  shows "n \<notin> s_name ` set (getRegisteredFunctions (disableFunction c n))"
proof -
  have "n \<notin> set (remove1 n (enabledFunctions c))"
    using assms member_remove1_twice [of n "enabledFunctions c"] by auto
  then show ?thesis
    by (auto simp: getRegisteredFunctions_def enabledFunctions_disableFunction)
qed

text \<open>
  Claim C4 (enableFunction and disableFunction are idempotent membership toggles; after
  enableFunction(name) the name is a member of the enabled set). The guard of
  \<open>enableFunction\<close> reads \<open>indexOf(name) != -1\<close>, so it pushes a name only when
  the name is already listed. On a controller that registered the example plugin with
  nothing enabled, \<open>enableFunction("fetch")\<close> leaves the enabled list empty and
  \<open>getRegisteredFunctions\<close> lists nothing. On a controller that has \<open>fetch\<close>
  enabled, \<open>enableFunction("fetch")\<close> lists it a second time, and one
  \<open>disableFunction("fetch")\<close> then leaves it a member.
\<close>

theorem enableFunction_never_adds_new_name:
  "(let c = registerFunctions newController (SystemPlugin now fetchText)
              \<lparr>namespace = None, enable = []\<rparr>
    in map fst (registeredFunctionsMap c) = [''date_time'', ''fetch'']
       \<and> enabledFunctions (enableFunction c ''fetch'') = []
       \<and> getRegisteredFunctions (enableFunction c ''fetch'') = [])
   \<and> (let c = registerFunctions newController (SystemPlugin now fetchText)
                 \<lparr>namespace = None, enable = [''fetch'']\<rparr>
       in enabledFunctions (enableFunction c ''fetch'') = [''fetch'', ''fetch'']
          \<and> enabledFunctions (disableFunction (enableFunction c ''fetch'') ''fetch'')
              = [''fetch''])"
  by (simp add: Let_def enabledFunctions_disableFunction enabledFunctions_enableFunction
        enabledFunctions_registerFunctions getRegisteredFunctions_def namespaced_def)
     (simp add: plugin_eval)

text \<open>
  Claim C3 (getRegisteredFunctions lists exactly the registered and enabled functions;
  after disableFunction of an enabled name the function is absent from later results
  while its descriptor stays registered). The listing is the registered names filtered
  by the enabled list (\<open>names_getRegisteredFunctions\<close>) and disabling never touches
  the registry (\<open>registeredFunctionsMap_disableFunction\<close>); a name listed at most
  once disappears (\<open>disableFunction_hides_single\<close>). A name listed twice does not:
  after registering the example plugin twice with \<open>enable: ["fetch"]\<close>, one
  \<open>disableFunction("fetch")\<close> leaves \<open>fetch\<close> in the result.
\<close>

theorem disableFunction_leaves_duplicate_visible:
  "(let opts = \<lparr>namespace = None, enable = [''fetch'']\<rparr>;
        c = registerFunctions (registerFunctions newController (SystemPlugin now fetchText) opts)
              (SystemPlugin now fetchText) opts;
        c' = disableFunction c ''fetch''
    in enabledFunctions c = [''fetch'', ''fetch'']
       \<and> enabledFunctions c' = [''fetch'']
       \<and> map s_name (getRegisteredFunctions c') = [''fetch''])"
  by (simp add: Let_def names_getRegisteredFunctions enabledFunctions_disableFunction
        enabledFunctions_registerFunctions registeredFunctionsMap_disableFunction)
     (simp add: plugin_eval)

text \<open>
  Claim C9 (registerFunctions appends every name of its enable option to enabledFunctions
  unconditionally; registering the same plugin twice with \<open>enable: [f]\<close> lists the
  name twice; one disableFunction then removes one occurrence only and the function
  stays visible in getRegisteredFunctions). The append holds for every controller,
  plugin and options; the double listing and the single removal for every options with
  \<open>enable = [f]\<close>, whether or not a descriptor is registered under the name; the
  function is visible when the plugin has a method exposed under the name \<open>f\<close>.
\<close>

theorem registerFunctions_enable_unconditional:
  "enabledFunctions (registerFunctions c plugin opts) =
     enabledFunctions c @ map (namespaced opts) (enable opts)
   \<and> (enable opts = [f] \<longrightarrow>
        (let n = namespaced opts f;
             c2 = registerFunctions (registerFunctions c plugin opts) plugin opts;
             c3 = disableFunction c2 n
         in enabledFunctions c2 = enabledFunctions c @ [n, n]
            \<and> enabledFunctions c3 = remove1 n (enabledFunctions c @ [n, n])
            \<and> count_list (enabledFunctions c3) n = Suc (count_list (enabledFunctions c) n)
            \<and> n \<in> set (enabledFunctions c3)
            \<and> (p \<in> set (ownPropertyNames plugin) \<and> chat_function plugin p = Some md
                 \<and> cf_name md = f \<longrightarrow>
               n \<in> s_name ` set (getRegisteredFunctions c3))))"
proof (intro conjI impI)
  show "enabledFunctions (registerFunctions c plugin opts) =
          enabledFunctions c @ map (namespaced opts) (enable opts)"
    by (rule enabledFunctions_registerFunctions)
next
  assume en: "enable opts = [f]"
  define n where "n = namespaced opts f"
  define c2 where "c2 = registerFunctions (registerFunctions c plugin opts) plugin opts"
  define c3 where "c3 = disableFunction c2 n"
  have e2: "enabledFunctions c2 = enabledFunctions c @ [n, n]"
    using en by (simp add: c2_def n_def enabledFunctions_registerFunctions)
  have e3: "enabledFunctions c3 = remove1 n (enabledFunctions c @ [n, n])"
    by (simp add: c3_def enabledFunctions_disableFunction e2)
  have "Suc (count_list (enabledFunctions c3) n) = count_list (enabledFunctions c @ [n, n]) n"
    unfolding e3 by (rule count_list_remove1) simp
  then have cnt: "count_list (enabledFunctions c3) n = Suc (count_list (enabledFunctions c) n)"
    by simp
  have mem: "n \<in> set (enabledFunctions c3)"
  proof (rule ccontr)
    assume "n \<notin> set (enabledFunctions c3)"
    then have "count_list (enabledFunctions c3) n = 0" by simp
    with cnt show False by simp
  qed
  have vis: "n \<in> s_name ` set (getRegisteredFunctions c3)"
    if h: "p \<in> set (ownPropertyNames plugin) \<and> chat_function plugin p = Some md \<and> cf_name md = f"
  proof -
    from h have "namespaced opts (cf_name md)
        \<in> fst ` set (registeredFunctionsMap (registerFunctions (registerFunctions c plugin opts) plugin opts))"
      using key_registerFunctions_new by blast
    with h have "n \<in> fst ` set (registeredFunctionsMap c2)" by (simp add: c2_def n_def)
    then have "n \<in> fst ` set (registeredFunctionsMap c3)"
      by (simp add: c3_def registeredFunctionsMap_disableFunction)
    with mem have "n \<in> set (map s_name (getRegisteredFunctions c3))"
      unfolding names_getRegisteredFunctions by simp
    then show ?thesis by simp
  qed
  show "let n = namespaced opts f;
            c2 = registerFunctions (registerFunctions c plugin opts) plugin opts;
            c3 = disableFunction c2 n
        in enabledFunctions c2 = enabledFunctions c @ [n, n]
           \<and> enabledFunctions c3 = remove1 n (enabledFunctions c @ [n, n])
           \<and> count_list (enabledFunctions c3) n = Suc (count_list (enabledFunctions c) n)
           \<and> n \<in> set (enabledFunctions c3)
           \<and> (p \<in> set (ownPropertyNames plugin) \<and> chat_function plugin p = Some md
                \<and> cf_name md = f \<longrightarrow>
              n \<in> s_name ` set (getRegisteredFunctions c3))"
    unfolding Let_def n_def [symmetric] c2_def [symmetric] c3_def [symmetric]
    using e2 e3 cnt mem vis by blast
qed

theorem registerFunctions_enable_unconditional_witness:
  "(let opts = \<lparr>namespace = Some ''sys'', enable = [''fetch'']\<rparr>;
        plugin = SystemPlugin ''Thu Jan 01 1970'' (\<lambda>_. Inr ''text'');
        md = \<lparr>cf_name = ''fetch'', cf_description = ''Fetch a URL and return raw text''\<rparr>;
        c2 = registerFunctions (registerFunctions newController plugin opts) plugin opts;
        c3 = disableFunction c2 ''sys.fetch''
    in enable opts = [''fetch'']
       \<and> ''chatFetch'' \<in> set (ownPropertyNames plugin)
       \<and> chat_function plugin ''chatFetch'' = Some md
       \<and> cf_name md = ''fetch''
       \<and> enabledFunctions c2 = [''sys.fetch'', ''sys.fetch'']
       \<and> enabledFunctions c3 = [''sys.fetch'']
       \<and> ''sys.fetch'' \<in> s_name ` set (getRegisteredFunctions c3)
       \<and> enabledFunctions (registerFunctions newController plugin
             \<lparr>namespace = None, enable = [''no_such_function'']\<rparr>) = [''no_such_function''])"
proof -
  define opts where "opts = \<lparr>namespace = Some ''sys'', enable = [''fetch'']\<rparr>"
  define plugin where "plugin = SystemPlugin ''Thu Jan 01 1970'' (\<lambda>_. Inr ''text'')"
  define md where
    "md = \<lparr>cf_name = ''fetch'', cf_description = ''Fetch a URL and return raw text''\<rparr>"
  have h1: "enable opts = [''fetch'']" by (simp add: opts_def)
  have h2: "''chatFetch'' \<in> set (ownPropertyNames plugin)"
    by (simp add: plugin_def SystemPlugin_def ChatFunction_def ChatParameter_def)
  have h3: "chat_function plugin ''chatFetch'' = Some md"
    by (simp add: plugin_def md_def SystemPlugin_def ChatFunction_def ChatParameter_def)
  have h4: "cf_name md = ''fetch''" by (simp add: md_def)
  have ns: "namespaced opts ''fetch'' = ''sys.fetch''" by (simp add: namespaced_def opts_def)
  have absent: "enabledFunctions (registerFunctions newController plugin
             \<lparr>namespace = None, enable = [''no_such_function'']\<rparr>) = [''no_such_function'']"
    using registerFunctions_enable_unconditional
            [of newController plugin "\<lparr>namespace = None, enable = [''no_such_function'']\<rparr>"]
    by (simp add: namespaced_def newController_def)
  from registerFunctions_enable_unconditional
         [of newController plugin opts "''fetch''" "''chatFetch''" md]
  show ?thesis
    using h1 h2 h3 h4 absent
    by (simp add: Let_def ns opts_def [symmetric] plugin_def [symmetric] md_def [symmetric])
       (simp add: newController_def)
qed

section \<open>Descriptors built by registerFunctions\<close>

lemma scanParameters_required_keys:
  "scanParameters plugin n i (pd0, pr0, pidx0) = (pd, pr, pidx) \<Longrightarrow>
     set pr0 \<subseteq> dom pidx0 \<Longrightarrow> set pr \<subseteq> dom pidx"
proof (induction plugin n i "(pd0, pr0, pidx0)" arbitrary: pd0 pr0 pidx0 rule: scanParameters.induct)
  case (1 plugin n i pd0 pr0 pidx0)
  show ?case
  proof (cases "getMetadata_i plugin n i")
    case None
    with "1.prems" show ?thesis by (simp add: scanParameters.simps)
  next
    case (Some m)
    from "1.prems"(1) Some have
      "scanParameters plugin n (Suc i)
         (pd0 @ [m], (if pm_required m = Some True then pr0 @ [pm_name m] else pr0),
          pidx0(pm_name m \<mapsto> i)) = (pd, pr, pidx)"
      by (simp add: scanParameters.simps)
    moreover have "set (if pm_required m = Some True then pr0 @ [pm_name m] else pr0)
                     \<subseteq> dom (pidx0(pm_name m \<mapsto> i))"
      using "1.prems"(2) by auto
    ultimately show ?thesis using "1.hyps" [OF Some] by blast
  qed
qed

lemma lastIndexed_step:
  assumes "lastIndexed pd pidx"
  shows "lastIndexed (pd @ [m]) (pidx(pm_name m \<mapsto> length pd))"
  unfolding lastIndexed_def
proof (intro allI)
  fix k v
  show "((pidx(pm_name m \<mapsto> length pd)) k = Some v) =
        (v < length (pd @ [m]) \<and> pm_name ((pd @ [m]) ! v) = k \<and>
         (\<forall>j. v < j \<and> j < length (pd @ [m]) \<longrightarrow> pm_name ((pd @ [m]) ! j) \<noteq> k))"
  proof (cases "k = pm_name m")
    case True
    have "(v < Suc (length pd) \<and> pm_name ((pd @ [m]) ! v) = k \<and>
          (\<forall>j. v < j \<and> j < Suc (length pd) \<longrightarrow> pm_name ((pd @ [m]) ! j) \<noteq> k)) = (v = length pd)"
    proof
      assume a: "v < Suc (length pd) \<and> pm_name ((pd @ [m]) ! v) = k \<and>
          (\<forall>j. v < j \<and> j < Suc (length pd) \<longrightarrow> pm_name ((pd @ [m]) ! j) \<noteq> k)"
      show "v = length pd"
      proof (rule ccontr)
        assume "v \<noteq> length pd"
        with a have "v < length pd" by simp
        moreover from a have
          "v < length pd \<and> length pd < Suc (length pd) \<longrightarrow> pm_name ((pd @ [m]) ! length pd) \<noteq> k"
          by blast
        ultimately have "pm_name ((pd @ [m]) ! length pd) \<noteq> k" by simp
        with True show False by simp
      qed
    next
      assume "v = length pd"
      with True show "v < Suc (length pd) \<and> pm_name ((pd @ [m]) ! v) = k \<and>
          (\<forall>j. v < j \<and> j < Suc (length pd) \<longrightarrow> pm_name ((pd @ [m]) ! j) \<noteq> k)"
        by (auto simp: less_Suc_eq)
    qed
    with True show ?thesis by auto
  next
    case False
    have "(v < Suc (length pd) \<and> pm_name ((pd @ [m]) ! v) = k \<and>
          (\<forall>j. v < j \<and> j < Suc (length pd) \<longrightarrow> pm_name ((pd @ [m]) ! j) \<noteq> k))
        = (v < length pd \<and> pm_name (pd ! v) = k \<and>
          (\<forall>j. v < j \<and> j < length pd \<longrightarrow> pm_name (pd ! j) \<noteq> k))"
      using False by (auto simp: nth_append less_Suc_eq)
    with False assms show ?thesis by (simp add: lastIndexed_def)
  qed
qed

lemma scanParameters_lastIndexed:
  "scanParameters plugin n i (pd0, pr0, pidx0) = (pd, pr, pidx) \<Longrightarrow>
     length pd0 = i \<Longrightarrow> lastIndexed pd0 pidx0 \<Longrightarrow> lastIndexed pd pidx"
proof (induction plugin n i "(pd0, pr0, pidx0)" arbitrary: pd0 pr0 pidx0 rule: scanParameters.induct)
  case (1 plugin n i pd0 pr0 pidx0)
  show ?case
  proof (cases "getMetadata_i plugin n i")
    case None
    with "1.prems" show ?thesis by (simp add: scanParameters.simps)
  next
    case (Some m)
    from "1.prems"(1) Some have
      "scanParameters plugin n (Suc i)
         (pd0 @ [m], (if pm_required m = Some True then pr0 @ [pm_name m] else pr0),
          pidx0(pm_name m \<mapsto> i)) = (pd, pr, pidx)"
      by (simp add: scanParameters.simps)
    moreover have "length (pd0 @ [m]) = Suc i" using "1.prems"(2) by simp
    moreover have "lastIndexed (pd0 @ [m]) (pidx0(pm_name m \<mapsto> i))"
      using lastIndexed_step [OF "1.prems"(3), of m] "1.prems"(2) by simp
    ultimately show ?thesis using "1.hyps" [OF Some] by blast
  qed
qed

lemma buildDescriptor_required_keys:
  "set (parameterRequired (buildDescriptor plugin n md))
     \<subseteq> dom (parameterIndex (buildDescriptor plugin n md))"
proof -
  obtain pd pr pidx where r: "scanParameters plugin n 0 ([], [], Map.empty) = (pd, pr, pidx)"
    by (metis prod_cases3)
  from scanParameters_required_keys [OF r] have "set pr \<subseteq> dom pidx" by simp
  with r show ?thesis by (simp add: buildDescriptor_def)
qed

lemma buildDescriptor_lastIndexed:
  "lastIndexed (parameterData (buildDescriptor plugin n md))
     (parameterIndex (buildDescriptor plugin n md))"
proof -
  obtain pd pr pidx where r: "scanParameters plugin n 0 ([], [], Map.empty) = (pd, pr, pidx)"
    by (metis prod_cases3)
  have "lastIndexed [] Map.empty" by (simp add: lastIndexed_def)
  with scanParameters_lastIndexed [OF r] have "lastIndexed pd pidx" by simp
  with r show ?thesis by (simp add: buildDescriptor_def)
qed

lemma lastIndexed_distinct:
  assumes "lastIndexed pd pidx" and "distinct (map pm_name pd)" and "i < length pd"
  shows "pidx (pm_name (pd ! i)) = Some i" and "pidx k = Some i \<Longrightarrow> k = pm_name (pd ! i)"
proof -
  have eq: "(pidx k' = Some v) =
        (v < length pd \<and> pm_name (pd ! v) = k' \<and>
         (\<forall>j. v < j \<and> j < length pd \<longrightarrow> pm_name (pd ! j) \<noteq> k'))" for k' v
    using assms(1) by (simp add: lastIndexed_def)
  have later: "pm_name (pd ! j) \<noteq> pm_name (pd ! i)" if j: "i < j \<and> j < length pd" for j
  proof
    assume same: "pm_name (pd ! j) = pm_name (pd ! i)"
    from j assms(3) have e: "map pm_name pd ! j = map pm_name pd ! i" using same by simp
    from j assms(3) have l: "j < length (map pm_name pd)" "i < length (map pm_name pd)"
      by simp_all
    from nth_eq_iff_index_eq [OF assms(2) l] e have "j = i" by blast
    with j show False by simp
  qed
  show "pidx (pm_name (pd ! i)) = Some i"
    by (simp add: eq later assms(3))
  show "pidx k = Some i \<Longrightarrow> k = pm_name (pd ! i)"
    by (simp add: eq)
qed

lemma buildDescriptor_distinct_names:
  assumes "distinct (map pm_name (parameterData (buildDescriptor plugin n md)))"
    and "i < length (parameterData (buildDescriptor plugin n md))"
  shows "\<exists>!k. parameterIndex (buildDescriptor plugin n md) k = Some i"
  using lastIndexed_distinct [OF buildDescriptor_lastIndexed assms] by blast

lemma map_of_registerOne:
  "map_of (registeredFunctionsMap (registerOne plugin opts n c)) k = Some d \<Longrightarrow>
     map_of (registeredFunctionsMap c) k = Some d
     \<or> (\<exists>md. chat_function plugin n = Some md \<and> k = namespaced opts (cf_name md)
              \<and> d = buildDescriptor plugin n md)"
  by (auto simp: registerOne_def update_conv' split: option.splits if_splits)

lemma map_of_fold_registerOne:
  "map_of (registeredFunctionsMap (fold (registerOne plugin opts) ns c)) k = Some d \<Longrightarrow>
     map_of (registeredFunctionsMap c) k = Some d
     \<or> (\<exists>n md. n \<in> set ns \<and> chat_function plugin n = Some md
              \<and> k = namespaced opts (cf_name md) \<and> d = buildDescriptor plugin n md)"
proof (induction ns arbitrary: c)
  case Nil
  then show ?case by simp
next
  case (Cons a ns)
  from Cons.prems have
    "map_of (registeredFunctionsMap (fold (registerOne plugin opts) ns (registerOne plugin opts a c))) k = Some d"
    by simp
  from Cons.IH [OF this] show ?case
  proof
    assume "map_of (registeredFunctionsMap (registerOne plugin opts a c)) k = Some d"
    from map_of_registerOne [OF this] show ?thesis by auto
  next
    assume "\<exists>n md. n \<in> set ns \<and> chat_function plugin n = Some md
              \<and> k = namespaced opts (cf_name md) \<and> d = buildDescriptor plugin n md"
    then show ?thesis by auto
  qed
qed

lemma map_of_registerFunctions:
  assumes "map_of (registeredFunctionsMap (registerFunctions c plugin opts)) k = Some d"
  shows "map_of (registeredFunctionsMap c) k = Some d
     \<or> (\<exists>n md. n \<in> set (ownPropertyNames plugin) \<and> chat_function plugin n = Some md
              \<and> k = namespaced opts (cf_name md) \<and> d = buildDescriptor plugin n md)"
  using map_of_fold_registerOne [OF assms [unfolded registerFunctions_def]]
  by (auto simp: registeredFunctionsMap_fold_push)

lemma nth_assignIndex:
  "i < length (assignIndex xs j v) \<Longrightarrow>
     assignIndex xs j v ! i = (if i = j then Some v else if i < length xs then xs ! i else None)"
  by (auto simp: assignIndex_def nth_append nth_Cons' less_Suc_eq)

lemma decorated_names:
  "decorated p \<Longrightarrow> getMetadata_i p n i = Some m \<Longrightarrow> pm_name m = n"
proof (induction arbitrary: n i m rule: decorated.induct)
  case (undecorated p)
  then show ?case by (simp add: getMetadata_i_def)
next
  case (withFunction p data propertyKey)
  from withFunction.prems have "getMetadata_i p n i = Some m"
    by (simp add: getMetadata_i_def ChatFunction_def split: if_splits)
  then show ?case by (rule withFunction.IH)
next
  case (withParameter p data propertyKey position)
  show ?case
  proof (cases "n = propertyKey")
    case False
    with withParameter.prems have "getMetadata_i p n i = Some m"
      by (simp add: getMetadata_i_def ChatParameter_def split: if_splits)
    then show ?thesis by (rule withParameter.IH)
  next
    case True
    define v where "v = \<lparr>pm_description = cp_description data, pm_type = cp_type data,
           pm_required = cp_required data, pm_name = propertyKey\<rparr>"
    from True withParameter.prems have len: "i < length (assignIndex (chat_function_i p n) position v)"
      and val: "assignIndex (chat_function_i p n) position v ! i = Some m"
      by (auto simp: getMetadata_i_def ChatParameter_def v_def split: if_splits)
    show ?thesis
    proof (cases "i = position")
      case True
      with val len have "m = v" by (simp add: nth_assignIndex)
      with \<open>n = propertyKey\<close> show ?thesis by (simp add: v_def)
    next
      case False
      with val len have "i < length (chat_function_i p n)" and "chat_function_i p n ! i = Some m"
        by (auto simp: nth_assignIndex split: if_splits)
      then have "getMetadata_i p n i = Some m" by (simp add: getMetadata_i_def)
      then show ?thesis by (rule withParameter.IH)
    qed
  qed
qed

lemma scanParameters_from_metadata:
  "scanParameters plugin n i (pd0, pr0, pidx0) = (pd, pr, pidx) \<Longrightarrow> m \<in> set pd \<Longrightarrow>
     m \<in> set pd0 \<or> (\<exists>j. getMetadata_i plugin n j = Some m)"
proof (induction plugin n i "(pd0, pr0, pidx0)" arbitrary: pd0 pr0 pidx0 rule: scanParameters.induct)
  case (1 plugin n i pd0 pr0 pidx0)
  show ?case
  proof (cases "getMetadata_i plugin n i")
    case None
    with "1.prems" show ?thesis by (simp add: scanParameters.simps)
  next
    case (Some x)
    from "1.prems"(1) Some have
      "scanParameters plugin n (Suc i)
         (pd0 @ [x], (if pm_required x = Some True then pr0 @ [pm_name x] else pr0),
          pidx0(pm_name x \<mapsto> i)) = (pd, pr, pidx)"
      by (simp add: scanParameters.simps)
    from "1.hyps" [OF Some this "1.prems"(2)]
    have "m \<in> set (pd0 @ [x]) \<or> (\<exists>j. getMetadata_i plugin n j = Some m)" .
    with Some show ?thesis by auto
  qed
qed

lemma decorated_parameter_names:
  assumes "decorated plugin" and "m \<in> set (parameterData (buildDescriptor plugin n md))"
  shows "pm_name m = n"
proof -
  obtain pd pr pidx where r: "scanParameters plugin n 0 ([], [], Map.empty) = (pd, pr, pidx)"
    by (metis prod_cases3)
  with assms(2) have "m \<in> set pd" by (simp add: buildDescriptor_def)
  from scanParameters_from_metadata [OF r this] obtain j where "getMetadata_i plugin n j = Some m"
    by auto
  with assms(1) show ?thesis by (rule decorated_names)
qed

lemma decorated_two_parameters_no_first_entry:
  assumes "decorated plugin" and "2 \<le> length (parameterData (buildDescriptor plugin n md))"
  shows "\<nexists>k. parameterIndex (buildDescriptor plugin n md) k = Some 0"
proof
  define d where "d = buildDescriptor plugin n md"
  assume "\<exists>k. parameterIndex (buildDescriptor plugin n md) k = Some 0"
  then obtain k where k: "parameterIndex d k = Some 0" by (auto simp: d_def)
  have li: "lastIndexed (parameterData d) (parameterIndex d)"
    unfolding d_def by (rule buildDescriptor_lastIndexed)
  from assms(2) have l0: "0 < length (parameterData d)" and l1: "1 < length (parameterData d)"
    unfolding d_def by linarith+
  have eq: "(parameterIndex d k = Some 0) =
        (0 < length (parameterData d) \<and> pm_name (parameterData d ! 0) = k \<and>
         (\<forall>j. 0 < j \<and> j < length (parameterData d) \<longrightarrow> pm_name (parameterData d ! j) \<noteq> k))"
    using li by (simp add: lastIndexed_def)
  from k eq have k0: "pm_name (parameterData d ! 0) = k"
    and later: "\<forall>j. 0 < j \<and> j < length (parameterData d) \<longrightarrow> pm_name (parameterData d ! j) \<noteq> k"
    by blast+
  from later l1 have "pm_name (parameterData d ! 1) \<noteq> k" by simp
  moreover have "pm_name (parameterData d ! 0) = n"
    using decorated_parameter_names [OF assms(1), of "parameterData d ! 0" n md] l0
    by (simp add: d_def)
  moreover have "pm_name (parameterData d ! 1) = n"
    using decorated_parameter_names [OF assms(1), of "parameterData d ! 1" n md] l1
    by (simp add: d_def)
  ultimately show False using k0 by simp
qed

lemma decorated_ConcatPlugin: "decorated ConcatPlugin"
  unfolding ConcatPlugin_def
  by (intro withParameter withFunction undecorated) simp

text \<open>
  Claim C5 (every descriptor produced by registerFunctions satisfies the data-model
  invariant: position i of parameterData corresponds to exactly one entry of
  parameterIndex with value i, and every required name is a key of that map). The
  second half holds for every descriptor (\<open>buildDescriptor_required_keys\<close>), and the
  first half holds when the stored parameter names are pairwise distinct
  (\<open>buildDescriptor_distinct_names\<close>). The decorator stores the method's own name as
  the name of each of its parameters (\<open>decorated_parameter_names\<close>), so a method with
  two or more decorated parameters gets parameters of one name and a map with a single
  entry, and no entry has value 0 (\<open>decorated_two_parameters_no_first_entry\<close>). The
  plugin below is one such.
\<close>

theorem registerFunctions_two_parameters_one_index:
  "(case map_of (registeredFunctionsMap
        (registerFunctions newController ConcatPlugin \<lparr>namespace = None, enable = [''concat'']\<rparr>))
        ''concat'' of
      None \<Rightarrow> False
    | Some d \<Rightarrow>
        map pm_name (parameterData d) = [''concatStrings'', ''concatStrings'']
        \<and> parameterRequired d = [''concatStrings'', ''concatStrings'']
        \<and> parameterIndex d = [''concatStrings'' \<mapsto> 1]
        \<and> (\<nexists>k. parameterIndex d k = Some 0))"
  by (simp add: ConcatPlugin_def plugin_eval)

section \<open>Dispatch of a function call\<close>

lemma placeArguments_unknown:
  assumes "u \<in> set (map fst kvs)" and "pidx u = None"
    and "\<forall>k \<in> set (map fst kvs). k \<noteq> u \<longrightarrow> pidx k \<noteq> None"
  shows "placeArguments pidx kvs acc = Inl (Error (''Unknown parameter '' @ u))"
  using assms
proof (induction kvs arbitrary: acc)
  case Nil
  then show ?case by simp
next
  case (Cons p kvs)
  obtain k v where p: "p = (k, v)" by (cases p)
  show ?case
  proof (cases "k = u")
    case True
    with p Cons.prems(2) show ?thesis by simp
  next
    case False
    with p Cons.prems obtain pos where pos: "pidx k = Some pos" by auto
    from False p Cons.prems(1) have "u \<in> set (map fst kvs)" by simp
    moreover from Cons.prems(3) have "\<forall>k \<in> set (map fst kvs). k \<noteq> u \<longrightarrow> pidx k \<noteq> None" by simp
    ultimately have "placeArguments pidx kvs (assignIndex acc pos v) = Inl (Error (''Unknown parameter '' @ u))"
      using Cons.IH Cons.prems(2) by blast
    with p pos show ?thesis by simp
  qed
qed

lemma length2E: "length xs = 2 \<Longrightarrow> \<exists>p q. xs = [p, q]"
  by (auto simp: length_Suc_conv numeral_2_eq_2)

lemma length3E: "length xs = 3 \<Longrightarrow> \<exists>p q r. xs = [p, q, r]"
  by (auto simp: length_Suc_conv numeral_3_eq_3)

lemma two_keys:
  assumes "distinct (map fst kvs)" and "set (map fst kvs) = {a, b}" and "a \<noteq> b"
  shows "\<exists>va vb. map_of kvs a = Some va \<and> map_of kvs b = Some vb \<and>
           kvs \<in> {[(a, va), (b, vb)], [(b, vb), (a, va)]}"
proof -
  have "length (map fst kvs) = card (set (map fst kvs))"
    using assms(1) by (simp only: distinct_card)
  with assms(2,3) have "length kvs = 2" by simp
  then obtain p q where kvs: "kvs = [p, q]" using length2E by blast
  obtain k1 v1 k2 v2 where pq: "p = (k1, v1)" "q = (k2, v2)" by (cases p, cases q)
  from assms(2) kvs pq have "{k1, k2} = {a, b}" by simp
  then have "(k1 = a \<and> k2 = b) \<or> (k1 = b \<and> k2 = a)" by (auto simp: doubleton_eq_iff)
  with kvs pq assms(3) show ?thesis by auto
qed

lemma one_key:
  assumes "distinct (map fst kvs)" and "set (map fst kvs) = {a}"
  shows "map fst kvs = [a]"
proof -
  have "length (map fst kvs) = card (set (map fst kvs))"
    using assms(1) by (simp only: distinct_card)
  with assms(2) have "length (map fst kvs) = 1" by simp
  then obtain k where "map fst kvs = [k]"
    by (auto simp: length_Suc_conv)
  with assms(2) show ?thesis by simp
qed

lemma three_keys:
  assumes "distinct (map fst kvs)" and "set (map fst kvs) = {a, b, c}" and "distinct [a, b, c]"
  shows "\<exists>va vb vc. map_of kvs a = Some va \<and> map_of kvs b = Some vb \<and> map_of kvs c = Some vc \<and>
           kvs \<in> {[(a, va), (b, vb), (c, vc)], [(a, va), (c, vc), (b, vb)],
                  [(b, vb), (a, va), (c, vc)], [(b, vb), (c, vc), (a, va)],
                  [(c, vc), (a, va), (b, vb)], [(c, vc), (b, vb), (a, va)]}"
proof -
  have "length (map fst kvs) = card (set (map fst kvs))"
    using assms(1) by (simp only: distinct_card)
  with assms(2,3) have "length kvs = 3" by simp
  then obtain p q r where kvs: "kvs = [p, q, r]" using length3E by blast
  obtain k1 v1 k2 v2 k3 v3 where pq: "p = (k1, v1)" "q = (k2, v2)" "r = (k3, v3)"
    by (cases p, cases q, cases r)
  from assms(1) kvs pq have d: "k1 \<noteq> k2" "k1 \<noteq> k3" "k2 \<noteq> k3" by auto
  from assms(2) kvs pq have s: "{k1, k2, k3} = {a, b, c}" by simp
  then have "k1 \<in> {a, b, c}" "k2 \<in> {a, b, c}" "k3 \<in> {a, b, c}" by blast+
  moreover from s have "a \<in> {k1, k2, k3}" "b \<in> {k1, k2, k3}" "c \<in> {k1, k2, k3}" by blast+
  ultimately show ?thesis using d assms(3) kvs pq by auto
qed

lemma everyRequired_object:
  "required \<noteq> [] \<Longrightarrow>
     everyRequired required (JObject kvs) = Inr (set required \<subseteq> set (map fst kvs))"
  by (auto simp: everyRequired_def list_all_iff)

text \<open>
  The dispatcher on a descriptor whose three parameter names differ, for any positions
  of the parameters and any key order of the payload: the arguments array has the
  value of each supplied key at the key's position and a hole everywhere else.
\<close>

lemma length_assignIndex: "length (assignIndex xs i v) = max (length xs) (Suc i)"
  by (auto simp: assignIndex_def)

lemma assignIndex_as_map:
  assumes "\<forall>i\<ge>n. g i = None"
  shows "assignIndex (map g [0..<n]) p v =
           map (\<lambda>i. if i = p then Some v else g i) [0..<max n (Suc p)]"
proof (rule nth_equalityI)
  show "length (assignIndex (map g [0..<n]) p v) =
          length (map (\<lambda>i. if i = p then Some v else g i) [0..<max n (Suc p)])"
    by (simp add: length_assignIndex)
next
  fix i assume "i < length (assignIndex (map g [0..<n]) p v)"
  then have i: "i < max n (Suc p)" by (simp add: length_assignIndex)
  with assms show "assignIndex (map g [0..<n]) p v ! i =
          map (\<lambda>i. if i = p then Some v else g i) [0..<max n (Suc p)] ! i"
    by (auto simp: nth_assignIndex length_assignIndex)
qed

lemma assignIndex_twice:
  "assignIndex (assignIndex [] p1 v1) p2 v2 =
     map (\<lambda>i. if i = p2 then Some v2 else if i = p1 then Some v1 else None)
       [0..<Suc (max p1 p2)]"
proof -
  have "assignIndex [] p1 v1 = map (\<lambda>i. if i = p1 then Some v1 else None) [0..<Suc p1]"
    using assignIndex_as_map [of 0 "\<lambda>_. None" p1 v1] by simp
  moreover have "\<forall>i\<ge>Suc p1. (if i = p1 then Some v1 else None) = None" by auto
  ultimately show ?thesis
    using assignIndex_as_map [of "Suc p1" "\<lambda>i. if i = p1 then Some v1 else None" p2 v2]
    by simp
qed

lemma assignIndex_thrice:
  "assignIndex (assignIndex (assignIndex [] p1 v1) p2 v2) p3 v3 =
     map (\<lambda>i. if i = p3 then Some v3 else if i = p2 then Some v2
               else if i = p1 then Some v1 else None)
       [0..<Suc (max p1 (max p2 p3))]"
proof -
  have "\<forall>i\<ge>Suc (max p1 p2). (if i = p2 then Some v2 else if i = p1 then Some v1 else None) = None"
    by auto
  then show ?thesis
    using assignIndex_as_map [of "Suc (max p1 p2)"
            "\<lambda>i. if i = p2 then Some v2 else if i = p1 then Some v1 else None" p3 v3]
    by (simp add: assignIndex_twice max.assoc)
qed

lemma handleFunctionCall_distinct_names:
  assumes reg: "map_of (registeredFunctionsMap c) f = Some d"
    and req: "set (parameterRequired d) = {a, b}"
    and idx: "parameterIndex d = [a \<mapsto> pa, b \<mapsto> pb, opt \<mapsto> po]"
    and names: "distinct [a, b, opt, u]"
    and positions: "distinct [pa, pb, po]"
    and parse: "JSON_parse lib args = Inr (JObject kvs)"
    and keys: "distinct (map fst kvs)"
  shows "(set (map fst kvs) = {a} \<longrightarrow>
            handleFunctionCall lib c f args =
              Inl (Error (''Missing required parameters (needed \"''
                     @ join '', '' (parameterRequired d) @ ''\", got '' @ a @ '')''))
            \<and> b \<in> set (parameterRequired d))
       \<and> (set (map fst kvs) = {a, b, u} \<longrightarrow>
            handleFunctionCall lib c f args = Inl (Error (''Unknown parameter '' @ u)))
       \<and> (set (map fst kvs) = {a, b} \<longrightarrow>
            handleFunctionCall lib c f args =
              func d (map (\<lambda>i. if i = pa then map_of kvs a
                                else if i = pb then map_of kvs b else None)
                        [0..<Suc (max pa pb)]))
       \<and> (set (map fst kvs) = {a, b, opt} \<longrightarrow>
            handleFunctionCall lib c f args =
              func d (map (\<lambda>i. if i = pa then map_of kvs a
                                else if i = pb then map_of kvs b
                                else if i = po then map_of kvs opt else None)
                        [0..<Suc (max pa (max pb po))]))"
proof -
  from req have ne: "parameterRequired d \<noteq> []" by auto
  from names have ab: "a \<noteq> b" and au: "a \<noteq> u" and bu: "b \<noteq> u" and ou: "opt \<noteq> u"
    and ao: "a \<noteq> opt" and bo: "b \<noteq> opt" by auto
  from positions have pab: "pa \<noteq> pb" and pao: "pa \<noteq> po" and pbo: "pb \<noteq> po" by auto
  have every: "everyRequired (parameterRequired d) (JObject kvs) = Inr ({a, b} \<subseteq> set (map fst kvs))"
    using everyRequired_object [OF ne] req by simp
  have ia: "parameterIndex d a = Some pa" and ib: "parameterIndex d b = Some pb"
    and io: "parameterIndex d opt = Some po" and iu: "parameterIndex d u = None"
    using idx ab au bu ou ao bo by auto
  have missing: "handleFunctionCall lib c f args =
              Inl (Error (''Missing required parameters (needed \"''
                     @ join '', '' (parameterRequired d) @ ''\", got '' @ a @ '')''))"
    if k: "set (map fst kvs) = {a}"
  proof -
    from one_key [OF keys k] have m: "map fst kvs = [a]" .
    from k ab have "\<not> {a, b} \<subseteq> set (map fst kvs)" by auto
    with every have "everyRequired (parameterRequired d) (JObject kvs) = Inr False" by simp
    then show ?thesis
      by (simp add: handleFunctionCall_def reg parse m missingRequiredMessage_def)
  qed
  have unknown: "handleFunctionCall lib c f args = Inl (Error (''Unknown parameter '' @ u))"
    if k: "set (map fst kvs) = {a, b, u}"
  proof -
    from k every have e: "everyRequired (parameterRequired d) (JObject kvs) = Inr True" by simp
    have mem: "u \<in> set (map fst kvs)" using k by simp
    have known: "\<forall>k' \<in> set (map fst kvs). k' \<noteq> u \<longrightarrow> parameterIndex d k' \<noteq> None"
      using k ia ib by auto
    have "placeArguments (parameterIndex d) kvs [] = Inl (Error (''Unknown parameter '' @ u))"
      by (rule placeArguments_unknown [OF mem iu known])
    with e show ?thesis by (simp add: handleFunctionCall_def reg parse)
  qed
  have two: "handleFunctionCall lib c f args =
              func d (map (\<lambda>i. if i = pa then map_of kvs a
                                else if i = pb then map_of kvs b else None)
                        [0..<Suc (max pa pb)])"
    if k: "set (map fst kvs) = {a, b}"
  proof -
    from k every have e: "everyRequired (parameterRequired d) (JObject kvs) = Inr True" by simp
    from two_keys [OF keys k ab] obtain va vb where
      v: "map_of kvs a = Some va" "map_of kvs b = Some vb"
      and shape: "kvs \<in> {[(a, va), (b, vb)], [(b, vb), (a, va)]}" by blast
    from shape have "placeArguments (parameterIndex d) kvs [] =
        Inr (map (\<lambda>i. if i = pa then Some va else if i = pb then Some vb else None)
               [0..<Suc (max pa pb)])"
      using ia ib pab by (auto simp: assignIndex_twice max.commute)
    then have "placeArguments (parameterIndex d) kvs [] =
        Inr (map (\<lambda>i. if i = pa then map_of kvs a else if i = pb then map_of kvs b else None)
               [0..<Suc (max pa pb)])"
      by (simp only: v)
    with e show ?thesis by (simp add: handleFunctionCall_def reg parse del: upt_Suc)
  qed
  have three: "handleFunctionCall lib c f args =
              func d (map (\<lambda>i. if i = pa then map_of kvs a
                                else if i = pb then map_of kvs b
                                else if i = po then map_of kvs opt else None)
                        [0..<Suc (max pa (max pb po))])"
    if k: "set (map fst kvs) = {a, b, opt}"
  proof -
    from k every have e: "everyRequired (parameterRequired d) (JObject kvs) = Inr True" by simp
    from ab ao bo have "distinct [a, b, opt]" by simp
    from three_keys [OF keys k this] obtain va vb vc where
      v: "map_of kvs a = Some va" "map_of kvs b = Some vb" "map_of kvs opt = Some vc"
      and shape: "kvs \<in> {[(a, va), (b, vb), (opt, vc)], [(a, va), (opt, vc), (b, vb)],
                  [(b, vb), (a, va), (opt, vc)], [(b, vb), (opt, vc), (a, va)],
                  [(opt, vc), (a, va), (b, vb)], [(opt, vc), (b, vb), (a, va)]}" by blast
    from shape have "placeArguments (parameterIndex d) kvs [] =
        Inr (map (\<lambda>i. if i = pa then Some va else if i = pb then Some vb
                       else if i = po then Some vc else None)
               [0..<Suc (max pa (max pb po))])"
      using ia ib io pab pao pbo
      by (auto simp: assignIndex_thrice max.commute max.left_commute)
    then have "placeArguments (parameterIndex d) kvs [] =
        Inr (map (\<lambda>i. if i = pa then map_of kvs a else if i = pb then map_of kvs b
                       else if i = po then map_of kvs opt else None)
               [0..<Suc (max pa (max pb po))])"
      by (simp only: v)
    with e show ?thesis by (simp add: handleFunctionCall_def reg parse del: upt_Suc)
  qed
  from req have "b \<in> set (parameterRequired d)" by simp
  with missing unknown two three show ?thesis by blast
qed

lemma handleFunctionCall_leaves_hole:
  "handleFunctionCall stubLibrary
     (newController\<lparr>registeredFunctionsMap :=
        [(''f'', \<lparr>description = ''three parameters'', parameterData = [],
                  parameterRequired = [''a'', ''b''],
                  parameterIndex = [''a'' \<mapsto> 0, ''c'' \<mapsto> 1, ''b'' \<mapsto> 2],
                  func = (\<lambda>argsArray.
                    if argsArray = [Some (JString ''x''), None, Some (JString ''y'')]
                    then Inr ''called with a hole'' else Inr ''called otherwise'')\<rparr>)]\<rparr>)
     ''f'' ''{\"a\":\"x\",\"b\":\"y\"}''
   = Inr ''called with a hole''"
  by (simp add: handleFunctionCall_def newController_def stubLibrary_def stubParse_def
        everyRequired_def assignIndex_def numeral_2_eq_2)

text \<open>
  Claim C1 (a registered function that requires \<open>a\<close> and \<open>b\<close> and declares the
  optional \<open>c\<close>: a payload with only \<open>a\<close> fails with the missing-required-parameters
  error listing \<open>b\<close>, a payload with \<open>a\<close>, \<open>b\<close> and an undeclared \<open>d\<close> fails with the
  unknown-parameter error for \<open>d\<close>, and payloads with \<open>a, b\<close> or \<open>a, b, c\<close> invoke the
  function with the values in the declared positions). Given a descriptor that names
  the three parameters, the dispatcher does all of this
  (\<open>handleFunctionCall_distinct_names\<close>). A plugin registered through the decorators
  never gets such a descriptor: the descriptor of \<open>joinThree(a, b, c)\<close> requires
  \<open>joinThree\<close> twice and maps \<open>joinThree\<close> to position 2, so each of the four payloads
  is answered with the missing-required-parameters error, which lists neither \<open>b\<close>
  nor any declared name.
\<close>

theorem handleFunctionCall_decorated_rejects_declared_names:
  "(let c = registerFunctions newController JoinPlugin \<lparr>namespace = None, enable = [''join3'']\<rparr>
    in (case map_of (registeredFunctionsMap c) ''join3'' of
          None \<Rightarrow> False
        | Some d \<Rightarrow> parameterRequired d = [''joinThree'', ''joinThree'']
                    \<and> parameterIndex d = [''joinThree'' \<mapsto> 2])
       \<and> handleFunctionCall stubLibrary c ''join3'' ''{\"a\":\"x\",\"b\":\"y\"}''
           = Inl (Error ''Missing required parameters (needed \"joinThree, joinThree\", got a, b)'')
       \<and> handleFunctionCall stubLibrary c ''join3'' ''{\"a\":\"x\",\"b\":\"y\",\"c\":\"z\"}''
           = Inl (Error ''Missing required parameters (needed \"joinThree, joinThree\", got a, b, c)'')
       \<and> handleFunctionCall stubLibrary c ''join3'' ''{\"a\":\"x\",\"b\":\"y\",\"d\":\"w\"}''
           = Inl (Error ''Missing required parameters (needed \"joinThree, joinThree\", got a, b, d)'')
       \<and> handleFunctionCall stubLibrary c ''join3'' ''{\"a\":\"x\"}''
           = Inl (Error ''Missing required parameters (needed \"joinThree, joinThree\", got a)''))"
  by (simp add: JoinPlugin_def ChatFunction_def ChatParameter_def assignIndex_def
        registerFunctions_def registerOne_def buildDescriptor_def scanParameters.simps
        getMetadata_i_def namespaced_def newController_def handleFunctionCall_def
        stubLibrary_def stubParse_def everyRequired_def missingRequiredMessage_def
        numeral_2_eq_2)

section \<open>The truncation loop\<close>

text \<open>
  What holds of the loop for every tokenizer: a text within the limit is returned as it
  is; a result is within the limit (with a token count that is not 0), is a prefix of
  the text and is a fixed point of the loop; on the empty text the loop exits only if
  the tokenizer reports a count other than 0 for it, and if it did, the loop would
  exit on every text.
\<close>

lemma truncateLoop_within: "withinLimit lib t m \<Longrightarrow> truncateLoop lib m t = Some t"
  by (subst truncateLoop.simps) simp

lemma truncateLoop_step:
  "\<not> withinLimit lib t m \<Longrightarrow>
     truncateLoop lib m t =
       truncateLoop lib m (if 4 * m < length t then take (4 * m) t else take (length t - 4) t)"
  by (subst truncateLoop.simps) simp

lemma truncateLoop_sound:
  assumes "truncateLoop lib m t = Some r"
  shows "withinLimit lib r m \<and> (\<exists>n. r = take n t)"
proof (rule truncateLoop.raw_induct
         [where P = "\<lambda>lib m t r. withinLimit lib r m \<and> (\<exists>n. r = take n t)", OF _ assms],
       goal_cases)
  case (1 loop lib m t r)
  show ?case
  proof (cases "withinLimit lib t m")
    case True
    with 1(2) have "r = t" by simp
    moreover have "t = take (length t) t" by simp
    ultimately show ?thesis using True by blast
  next
    case False
    define t' where "t' = (if 4 * m < length t then take (4 * m) t else take (length t - 4) t)"
    from False 1(2) have "loop lib m t' = Some r" by (simp add: t'_def split: if_splits)
    from 1(1) [OF this] obtain n where w: "withinLimit lib r m" and r: "r = take n t'" by blast
    from r have "\<exists>k. r = take k t" by (auto simp: t'_def take_take split: if_splits)
    with w show ?thesis by simp
  qed
qed

lemma truncateLoop_idempotent:
  "truncateLoop lib m t = Some r \<Longrightarrow> truncateLoop lib m r = Some r"
  using truncateLoop_sound truncateLoop_within by blast

lemma truncateLoop_empty:
  "truncateLoop lib m [] = (if withinLimit lib [] m then Some [] else None)"
proof (cases "withinLimit lib [] m")
  case True
  then show ?thesis by (simp add: truncateLoop_within)
next
  case False
  have "truncateLoop lib m [] = None"
  proof (cases "truncateLoop lib m []")
    case None
    then show ?thesis .
  next
    case (Some r)
    from truncateLoop_sound [OF Some] have "withinLimit lib r m" and "r = []" by auto
    with False show ?thesis by simp
  qed
  with False show ?thesis by simp
qed

lemma truncateLoop_terminates_when_empty_is_within:
  assumes "withinLimit lib [] m"
  shows "\<exists>r. truncateLoop lib m t = Some r"
proof (induction t rule: length_induct)
  case (1 t)
  show ?case
  proof (cases "withinLimit lib t m")
    case True
    then show ?thesis by (simp add: truncateLoop_within)
  next
    case False
    with assms have ne: "t \<noteq> []" by auto
    define t' where "t' = (if 4 * m < length t then take (4 * m) t else take (length t - 4) t)"
    from ne have "length t' < length t" by (auto simp: t'_def)
    with "1.IH" obtain r where "truncateLoop lib m t' = Some r" by blast
    with False show ?thesis by (simp add: truncateLoop_step t'_def)
  qed
qed

lemma withinLimit_zero_tokens: "isWithinTokenLimit lib t m = Some 0 \<Longrightarrow> \<not> withinLimit lib t m"
  by (simp add: withinLimit_def)

lemma withinLimit_exceeded: "isWithinTokenLimit lib t m = None \<Longrightarrow> \<not> withinLimit lib t m"
  by (simp add: withinLimit_def)

text \<open>
  Claim C8 (for every text and every positive budget the truncation loop terminates,
  because each branch strictly shrinks the text). \<open>isWithinTokenLimit\<close> returns the
  number of tokens when the text is within the limit, which is 0 for the empty text,
  and \<open>!0\<close> is true: the loop is entered on the empty text, whose
  \<open>substring(0, -4)\<close> is the empty text again. For every budget, the loop started on
  the empty text never exits.
\<close>

theorem truncateLoop_never_exits_on_empty_text:
  assumes "isWithinTokenLimit lib [] maxTokens = Some 0"
  shows "truncateLoop lib maxTokens [] = None"
  using assms by (simp add: truncateLoop_empty withinLimit_def)

theorem truncateLoop_never_exits_on_empty_text_witness:
  "isWithinTokenLimit stubLibrary [] 2048 = Some 0 \<and> truncateLoop stubLibrary 2048 [] = None"
  using truncateLoop_never_exits_on_empty_text [of stubLibrary 2048]
  by (simp add: stubLibrary_def unitTokenizer_def)

text \<open>
  Claim C7 (for any text and any positive budget the loop's output is a fixed point of
  the loop, and the final text is within the budget or empty). Where the loop returns,
  its result is a fixed point within the budget (\<open>truncateLoop_idempotent\<close>,
  \<open>truncateLoop_sound\<close>). It does not return for every text: a text of at most four
  code units that exceeds the budget is cut to the empty text, on which the loop never
  exits, so there is no final text.
\<close>

theorem truncateLoop_short_text_has_no_result:
  assumes "isWithinTokenLimit lib [] maxTokens = Some 0"
    and "isWithinTokenLimit lib text maxTokens = None"
    and "length text \<le> 4" and "0 < maxTokens"
  shows "truncateLoop lib maxTokens text = None"
proof -
  from assms(2) have "\<not> withinLimit lib text maxTokens" by (rule withinLimit_exceeded)
  then have "truncateLoop lib maxTokens text = truncateLoop lib maxTokens []"
    using assms(3,4) by (simp add: truncateLoop_step)
  with assms(1) show ?thesis by (simp add: truncateLoop_empty withinLimit_def)
qed

theorem truncateLoop_short_text_has_no_result_witness:
  "isWithinTokenLimit stubLibrary [] 1 = Some 0
   \<and> isWithinTokenLimit stubLibrary ''a b'' 1 = None
   \<and> length ''a b'' \<le> 4 \<and> (0::nat) < 1
   \<and> truncateLoop stubLibrary 1 ''a b'' = None"
  using truncateLoop_short_text_has_no_result [of stubLibrary 1 "''a b''"]
  by (simp add: stubLibrary_def unitTokenizer_def)

section \<open>Function-result messages\<close>

lemma getFunctionMessage_failure:
  "handleFunctionCall lib c name args = Inl e \<Longrightarrow> message e = Inr m \<Longrightarrow>
     getFunctionMessage lib c name args options =
       Some (Inr (functionMessage name (JSON_stringify lib (errorObject m))))"
  by (simp add: getFunctionMessage_def Let_def)

lemma getFunctionMessage_rethrows:
  "handleFunctionCall lib c name args = Inl e \<Longrightarrow> message e = Inl t \<Longrightarrow>
     getFunctionMessage lib c name args options = Some (Inl t)"
  by (simp add: getFunctionMessage_def Let_def)

lemma getFunctionMessage_thrown_nullish:
  "handleFunctionCall lib c name args = Inl thrownNullish \<Longrightarrow>
     getFunctionMessage lib c name args options
       = Some (Inl (TypeError ''Cannot read properties of null''))"
  by (simp add: getFunctionMessage_rethrows thrownNullish_def)

lemma getFunctionMessage_role_name:
  "getFunctionMessage lib c name args options = Some (Inr msg) \<Longrightarrow>
     role msg = Function \<and> msg_name msg = Some name"
  by (auto simp: getFunctionMessage_def Let_def functionMessage_def
           split: sum.splits option.splits)

lemma getFunctionMessage_success:
  assumes "handleFunctionCall lib c name args = Inr result"
    and "getFunctionMessage lib c name args (Some maxTokens) = Some r"
  shows "\<exists>n. r = Inr (functionMessage name (take n result))
             \<and> withinLimit lib (take n result) maxTokens"
proof -
  from assms obtain t where t: "truncateLoop lib maxTokens result = Some t"
    and m: "r = Inr (functionMessage name t)"
    by (auto simp: getFunctionMessage_def split: option.splits)
  from truncateLoop_sound [OF t] m show ?thesis by auto
qed

lemma getFunctionMessage_within:
  "handleFunctionCall lib c name args = Inr result \<Longrightarrow> withinLimit lib result maxTokens \<Longrightarrow>
     getFunctionMessage lib c name args (Some maxTokens)
       = Some (Inr (functionMessage name result))"
  by (simp add: getFunctionMessage_def truncateLoop_within)

lemma message_of_error_classes:
  "message (Error m) = Inr (Some (JString m))"
  "message (SyntaxError m) = Inr (Some (JString m))"
  "message (TypeError m) = Inr (Some (JString m))"
  by simp_all

lemma handleFunctionCall_not_found:
  "map_of (registeredFunctionsMap c) name = None \<Longrightarrow>
     handleFunctionCall lib c name args = Inl (Error (''Function '' @ name @ '' not found''))"
  by (simp add: handleFunctionCall_def)

lemma handleFunctionCall_malformed:
  "map_of (registeredFunctionsMap c) name = Some d \<Longrightarrow> JSON_parse lib args = Inl m \<Longrightarrow>
     handleFunctionCall lib c name args = Inl (SyntaxError m)"
  by (simp add: handleFunctionCall_def)

lemma getFunctionMessage_callee_throws_null:
  "(let c = registerFunctions newController (SystemPlugin ''Thu Jan 01 1970'' (\<lambda>url. Inl thrownNullish))
              \<lparr>namespace = None, enable = [''fetch'']\<rparr>
    in getFunctionMessage stubLibrary c ''fetch''
         ''{\"chatFetch\":\"https://example.com/empty\"}'' None
       = Some (Inl (TypeError ''Cannot read properties of null'')))"
  by (simp add: Let_def getFunctionMessage_def plugin_eval handleFunctionCall_def
        stubLibrary_def stubParse_def everyRequired_def thrownNullish_def)

text \<open>
  Claim C2 (for every name, argument string and options getFunctionMessage returns a
  function-role message carrying the name, with the possibly truncated result on
  success and \<open>JSON.stringify({error: message})\<close> on every dispatch failure, and no
  error propagates). Every dispatch failure whose message can be read comes back as
  that message (\<open>getFunctionMessage_failure\<close>), every message returned has the role
  and the name (\<open>getFunctionMessage_role_name\<close>) and, on success, a prefix of the result
  within the budget (\<open>getFunctionMessage_success\<close>). A message is not returned for
  every input: when the callee's result is the empty string the truncation loop never
  exits, whatever the budget, for every tokenizer that counts no token in the empty
  text. And when the callee throws \<open>null\<close> or \<open>undefined\<close> the catch block itself
  throws (\<open>getFunctionMessage_rethrows\<close>, \<open>getFunctionMessage_callee_throws_null\<close>).
\<close>

theorem getFunctionMessage_never_returns_on_empty_result:
  assumes "handleFunctionCall lib c name args = Inr []"
    and "\<forall>maxTokens. isWithinTokenLimit lib [] maxTokens = Some 0"
  shows "getFunctionMessage lib c name args options = None"
  using assms by (simp add: getFunctionMessage_def truncateLoop_empty withinLimit_def Let_def)

theorem getFunctionMessage_never_returns_on_empty_result_witness:
  "(let c = registerFunctions newController (SystemPlugin ''Thu Jan 01 1970'' (\<lambda>url. Inr []))
              \<lparr>namespace = None, enable = [''fetch'']\<rparr>;
        args = ''{\"chatFetch\":\"https://example.com/empty\"}''
    in handleFunctionCall stubLibrary c ''fetch'' args = Inr []
       \<and> (\<forall>maxTokens. isWithinTokenLimit stubLibrary [] maxTokens = Some 0)
       \<and> getFunctionMessage stubLibrary c ''fetch'' args None = None
       \<and> getFunctionMessage stubLibrary c ''fetch'' args (Some 1) = None)"
proof -
  define c where "c = registerFunctions newController (SystemPlugin ''Thu Jan 01 1970'' (\<lambda>url. Inr []))
              \<lparr>namespace = None, enable = [''fetch'']\<rparr>"
  have h1: "handleFunctionCall stubLibrary c ''fetch'' ''{\"chatFetch\":\"https://example.com/empty\"}'' = Inr []"
    by (simp add: c_def plugin_eval handleFunctionCall_def stubLibrary_def stubParse_def
          everyRequired_def)
  have h2: "\<forall>maxTokens. isWithinTokenLimit stubLibrary [] maxTokens = Some 0"
    by (simp add: stubLibrary_def unitTokenizer_def)
  from getFunctionMessage_never_returns_on_empty_result [OF h1 h2, of None]
       getFunctionMessage_never_returns_on_empty_result [OF h1 h2, of "Some 1"] h1 h2
  show ?thesis by (simp add: c_def)
qed

text \<open>
  Claim C10 (getFunctionMessageFromMessage on a message without a function call throws
  \<open>Message does not have a function call\<close> to its caller; unlike a dispatch failure
  this error is not turned into a function-role message). The first conjunct is the
  throw, for every message without a call; the second is the contrast, a dispatch
  failure with a readable message (every error the dispatcher raises itself, and every
  \<open>Error\<close> of a callee), which comes back as a message.
\<close>

theorem getFunctionMessageFromMessage_without_call_throws:
  "getFunctionMessageFromMessage lib c
     \<lparr>role = r, content = text, msg_name = n, function_call = None\<rparr> options
     = Some (Inl (Error ''Message does not have a function call''))
   \<and> (handleFunctionCall lib c (fc_name fc) (fc_arguments fc) = Inl e \<and> message e = Inr m \<longrightarrow>
        getFunctionMessageFromMessage lib c
          \<lparr>role = r, content = text, msg_name = n, function_call = Some fc\<rparr> options
        = Some (Inr (functionMessage (fc_name fc) (JSON_stringify lib (errorObject m)))))"
  by (simp add: getFunctionMessageFromMessage_def getFunctionMessage_failure)

theorem getFunctionMessageFromMessage_without_call_throws_witness:
  "getFunctionMessageFromMessage stubLibrary newController
     \<lparr>role = User, content = Some ''What time is it?'', msg_name = None, function_call = None\<rparr> None
     = Some (Inl (Error ''Message does not have a function call''))
   \<and> handleFunctionCall stubLibrary newController ''date_time'' ''{}''
       = Inl (Error ''Function date_time not found'')
   \<and> message (Error ''Function date_time not found'')
       = Inr (Some (JString ''Function date_time not found''))
   \<and> getFunctionMessageFromMessage stubLibrary newController
        \<lparr>role = Assistant, content = None, msg_name = None,
         function_call = Some \<lparr>fc_name = ''date_time'', fc_arguments = ''{}''\<rparr>\<rparr> None
       = Some (Inr \<lparr>role = Function,
                    content = Some ''{\"error\":\"Function date_time not found\"}'',
                    msg_name = Some ''date_time'', function_call = None\<rparr>)"
proof -
  have h: "handleFunctionCall stubLibrary newController
             (fc_name \<lparr>fc_name = ''date_time'', fc_arguments = ''{}''\<rparr>)
             (fc_arguments \<lparr>fc_name = ''date_time'', fc_arguments = ''{}''\<rparr>)
           = Inl (Error ''Function date_time not found'')"
    by (simp add: handleFunctionCall_def newController_def)
  from getFunctionMessageFromMessage_without_call_throws
         [of stubLibrary newController User "Some ''What time is it?''" None None
             "\<lparr>fc_name = ''date_time'', fc_arguments = ''{}''\<rparr>"
             "Error ''Function date_time not found''"
             "Some (JString ''Function date_time not found'')"]
       getFunctionMessageFromMessage_without_call_throws
         [of stubLibrary newController Assistant None None None
             "\<lparr>fc_name = ''date_time'', fc_arguments = ''{}''\<rparr>"
             "Error ''Function date_time not found''"
             "Some (JString ''Function date_time not found'')"]
       h
  show ?thesis
    by (simp add: functionMessage_def errorObject_def stubLibrary_def stubStringify_def
          jsonQuote_def)
qed

section \<open>The conversation state\<close>

lemma usage_addMessage: "usage (addMessage c msg) = zeroUsage"
  by (simp add: addMessage_def)

lemma messages_addMessage: "messages (addMessage c msg) = messages c @ [msg]"
  by (simp add: addMessage_def)

lemma usage_addSystemMessage: "usage (addSystemMessage c text) = zeroUsage"
  by (simp add: addSystemMessage_def usage_addMessage)

lemma usage_clearMessages: "usage (clearMessages c) = zeroUsage \<and> messages (clearMessages c) = []"
  by (simp add: clearMessages_def)

lemma getNextCompletion_propagates_throw:
  assumes "choices r1 = Some m # rest1" and "function_call m = Some fc"
    and "getFunctionMessage lib c (fc_name fc) (fc_arguments fc) None = Some (Inl t)"
  shows "getNextCompletion lib True (Inr r1 # replies) c = Some (Inl t, c)"
  using assms by simp

lemma getNextCompletion_keeps_stale_usage:
  assumes "choices r1 = Some m # rest1" and "function_call m = Some fc"
    and "getFunctionMessage lib c (fc_name fc) (fc_arguments fc) None = Some (Inr msg)"
    and "choices r2 = Some m2 # rest2" and "function_call m2 = None" and "r_usage r2 = None"
  shows "getNextCompletion lib True [Inr r1, Inr r2] c
           = Some (Inr r2, c\<lparr>messages := messages c @ [msg]\<rparr>)"
  using assms by (simp add: storeUsage_def)

text \<open>
  Claim C6 (appending any message resets the usage snapshot to zero, including the
  function-result messages appended by the auto-calling loop). \<open>addMessage\<close> resets the
  counters (\<open>usage_addMessage\<close>); \<open>getNextCompletion\<close> pushes the function-result
  message onto \<open>messages\<close> itself and leaves \<open>usage\<close> as it was. In the run below a
  first completion stores the counters 9, 3, 12; the next completion is a function
  call, its result is appended, and the final reply carries no usage: the counters
  are still 9, 3, 12 although a message was appended after they were stored.
\<close>

theorem getNextCompletion_appends_without_reset:
  "(let c0 = registerFunctions newController
               (SystemPlugin ''Thu Jan 01 1970'' (\<lambda>url. Inr ''text''))
               \<lparr>namespace = None, enable = [''date_time'']\<rparr>;
        question = \<lparr>role = User, content = Some ''What time is it?'', msg_name = None,
                    function_call = None\<rparr>;
        answer = \<lparr>choices = [Some \<lparr>role = Assistant, content = Some ''Let me check.'',
                                     msg_name = None, function_call = None\<rparr>],
                  r_usage = Some \<lparr>prompt_tokens = 9, completion_tokens = 3, total_tokens = 12\<rparr>\<rparr>;
        call = \<lparr>choices = [Some \<lparr>role = Assistant, content = None, msg_name = None,
                     function_call = Some \<lparr>fc_name = ''date_time'', fc_arguments = ''{}''\<rparr>\<rparr>],
                r_usage = Some \<lparr>prompt_tokens = 20, completion_tokens = 5, total_tokens = 25\<rparr>\<rparr>;
        final = \<lparr>choices = [Some \<lparr>role = Assistant, content = Some ''The time is now known.'',
                                    msg_name = None, function_call = None\<rparr>],
                 r_usage = None\<rparr>
    in case getCompletionWithMessage stubLibrary False [Inr answer] c0 question of
         None \<Rightarrow> False
       | Some (r1, c1) \<Rightarrow>
           messages c1 = [question]
           \<and> usage c1 = \<lparr>prompt_tokens = 9, completion_tokens = 3, total_tokens = 12\<rparr>
           \<and> (case getNextCompletion stubLibrary True [Inr call, Inr final] c1 of
                 None \<Rightarrow> False
               | Some (r2, c2) \<Rightarrow>
                   messages c2 = [question, functionMessage ''date_time'' ''Thu Jan 01 1970'']
                   \<and> usage c2 = \<lparr>prompt_tokens = 9, completion_tokens = 3, total_tokens = 12\<rparr>
                   \<and> usage c2 \<noteq> zeroUsage))"
  by (simp add: Let_def getCompletionWithMessage_def addMessage_def storeUsage_def
        getFunctionMessage_def handleFunctionCall_def plugin_eval stubLibrary_def stubParse_def
        unitTokenizer_def everyRequired_def truncateLoop_within withinLimit_def
        functionMessage_def zeroUsage_def)

end
